theory Spec2Isabelle
  imports Main "HOL-Library.Word"
begin

unbundle bit_operations_syntax

section \<open>Go values, panics and memory\<close>

text \<open>
  The package works on byte slices that share backing arrays (\<open>x := xy\<close>,
  \<open>y := xy[128*r:]\<close>, \<open>b[i*128*r:]\<close>), so the model keeps an explicit byte-addressed
  memory. A slice is the Go slice header: the address of its first element, its length
  and its capacity. Go's \<open>int\<close> is modelled by \<open>int\<close>: every index expression of
  the package is bounded by the length of a buffer that exists, so no \<open>int\<close>
  arithmetic wraps; the two unsigned conversions (\<open>uint64(r)\<close>, \<open>uint64(N-1)\<close>) are
  \<open>word_of_int\<close> into 64-bit words, where multiplication wraps.
\<close>

type_synonym byte = "8 word"
type_synonym uint32 = "32 word"
type_synonym uint64 = "64 word"

datatype panic = DivideByZero | SliceBounds | IndexRange | MakeLen

type_synonym 'a go = "panic + 'a"

definition and_then :: "'a go \<Rightarrow> ('a \<Rightarrow> 'b go) \<Rightarrow> 'b go" where
  "and_then m f = (case m of Inl e \<Rightarrow> Inl e | Inr a \<Rightarrow> f a)"

record heap =
  mem :: "nat \<Rightarrow> byte"
  brk :: nat

record slice =
  ptr :: nat
  len :: nat
  cap :: nat

text \<open>\<open>make([]byte, n)\<close>: a fresh zeroed array at the allocation pointer.\<close>

definition make :: "heap \<Rightarrow> int \<Rightarrow> (heap \<times> slice) go" where
  "make h n =
     (if n < 0 then Inl MakeLen
      else Inr (\<lparr>mem = (\<lambda>a. if brk h \<le> a \<and> a < brk h + nat n then 0 else mem h a),
                  brk = brk h + nat n\<rparr>,
                \<lparr>ptr = brk h, len = nat n, cap = nat n\<rparr>))"

text \<open>\<open>s[a:]\<close> needs \<open>0 \<le> a \<le> len(s)\<close>; \<open>s[:n]\<close> needs \<open>0 \<le> n \<le> cap(s)\<close>.\<close>

definition slice_from :: "slice \<Rightarrow> int \<Rightarrow> slice go" where
  "slice_from s a =
     (if 0 \<le> a \<and> a \<le> int (len s)
      then Inr \<lparr>ptr = ptr s + nat a, len = len s - nat a, cap = cap s - nat a\<rparr>
      else Inl SliceBounds)"

definition slice_to :: "slice \<Rightarrow> int \<Rightarrow> slice go" where
  "slice_to s n =
     (if 0 \<le> n \<and> n \<le> int (cap s) then Inr (s\<lparr>len := nat n\<rparr>) else Inl SliceBounds)"

text \<open>\<open>s[i]\<close> as a value and as an assignment target.\<close>

definition index :: "heap \<Rightarrow> slice \<Rightarrow> int \<Rightarrow> byte go" where
  "index h s i =
     (if 0 \<le> i \<and> i < int (len s) then Inr (mem h (ptr s + nat i)) else Inl IndexRange)"

definition assign :: "heap \<Rightarrow> slice \<Rightarrow> int \<Rightarrow> byte \<Rightarrow> heap go" where
  "assign h s i v =
     (if 0 \<le> i \<and> i < int (len s)
      then Inr (h\<lparr>mem := (mem h)(ptr s + nat i := v)\<rparr>)
      else Inl IndexRange)"

text \<open>The builtin \<open>copy(dst, src)\<close>: \<open>min(len(dst), len(src))\<close> bytes, overlap allowed.\<close>

definition copy :: "heap \<Rightarrow> slice \<Rightarrow> slice \<Rightarrow> heap" where
  "copy h dst src =
     h\<lparr>mem := (\<lambda>a. if ptr dst \<le> a \<and> a < ptr dst + min (len dst) (len src)
                     then mem h (ptr src + (a - ptr dst)) else mem h a)\<rparr>"

text \<open>
  The contents of \<open>n\<close> bytes from address \<open>a\<close>, and memory with a byte sequence
  written from address \<open>a\<close>. \<open>bytes s\<close> is the contents of a slice.
\<close>

definition bytes_at :: "heap \<Rightarrow> nat \<Rightarrow> nat \<Rightarrow> byte list" where
  "bytes_at h a n = map (mem h) [a..<a + n]"

definition bytes :: "heap \<Rightarrow> slice \<Rightarrow> byte list" where
  "bytes h s = bytes_at h (ptr s) (len s)"

definition store_at :: "heap \<Rightarrow> nat \<Rightarrow> byte list \<Rightarrow> heap" where
  "store_at h a bs =
     h\<lparr>mem := (\<lambda>k. if a \<le> k \<and> k < a + length bs then bs ! (k - a) else mem h k)\<rparr>"

text \<open>
  A byte sequence returned by a library call (\<open>pbkdf2.Key\<close>) arrives in a fresh
  array, as a slice of exactly that length.
\<close>

definition fresh_slice :: "heap \<Rightarrow> byte list \<Rightarrow> heap \<times> slice" where
  "fresh_slice h bs =
     (store_at (h\<lparr>brk := brk h + length bs\<rparr>) (brk h) bs,
      \<lparr>ptr = brk h, len = length bs, cap = length bs\<rparr>)"

definition empty_heap :: heap where
  "empty_heap = \<lparr>mem = (\<lambda>a. 0), brk = 0\<rparr>"

text \<open>\<open>for i := a; i < n; i++ { body }\<close>, stopping at the first panic.\<close>

lemma and_then_cong [fundef_cong]:
  "m = m' \<Longrightarrow> (\<And>a. m' = Inr a \<Longrightarrow> f a = f' a) \<Longrightarrow> and_then m f = and_then m' f'"
  by (auto simp: and_then_def split: sum.splits)

function for_loop :: "int \<Rightarrow> int \<Rightarrow> (int \<Rightarrow> 's \<Rightarrow> 's go) \<Rightarrow> 's \<Rightarrow> 's go" where
  "for_loop i n body s =
     (if i < n then and_then (body i s) (for_loop (i + 1) n body) else Inr s)"
  by pat_completeness auto
termination
  by (relation "measure (\<lambda>(i, n, body, s). nat (n - i))") auto

declare for_loop.simps [simp del]

section \<open>Salsa20/8 (scrypt.go)\<close>

text \<open>
  \<open>salsa\<close> keeps the sixteen working words in the local variables \<open>x0\<close> ...
  \<open>x15\<close>; the model keeps them in a tuple. The input words stay in the array
  \<open>w\<close>, a list of sixteen words.
\<close>

type_synonym words16 =
  "uint32 \<times> uint32 \<times> uint32 \<times> uint32 \<times> uint32 \<times> uint32 \<times> uint32 \<times> uint32 \<times>
   uint32 \<times> uint32 \<times> uint32 \<times> uint32 \<times> uint32 \<times> uint32 \<times> uint32 \<times> uint32"

text \<open>The first loop: \<open>w[i] = uint32(b[j]) | uint32(b[j+1])<<8 | ...\<close> with \<open>j := i*4\<close>.\<close>

definition salsa_load :: "heap \<Rightarrow> slice \<Rightarrow> uint32 list go" where
  "salsa_load h b =
     for_loop 0 16
       (\<lambda>i w. let j = i * 4 in
          and_then (index h b j) (\<lambda>b0.
          and_then (index h b (j + 1)) (\<lambda>b1.
          and_then (index h b (j + 2)) (\<lambda>b2.
          and_then (index h b (j + 3)) (\<lambda>b3.
            Inr (w[nat i := ucast b0 OR push_bit 8 (ucast b1) OR
                             push_bit 16 (ucast b2) OR push_bit 24 (ucast b3)]))))))
       (replicate 16 0)"

text \<open>The body of \<open>for i := 0; i < 8; i += 2\<close>: the column step, then the row step.\<close>

definition double_round :: "words16 \<Rightarrow> words16" where
  "double_round = 
    (\<lambda>(x0, x1, x2, x3, x4, x5, x6, x7, x8, x9, x10, x11, x12, x13, x14, x15).
     let x4 = x4 XOR (push_bit 7 (x0 + x12) OR drop_bit (32 - 7) (x0 + x12));
       x8 = x8 XOR (push_bit 9 (x4 + x0) OR drop_bit (32 - 9) (x4 + x0));
       x12 = x12 XOR (push_bit 13 (x8 + x4) OR drop_bit (32 - 13) (x8 + x4));
       x0 = x0 XOR (push_bit 18 (x12 + x8) OR drop_bit (32 - 18) (x12 + x8));
       x9 = x9 XOR (push_bit 7 (x5 + x1) OR drop_bit (32 - 7) (x5 + x1));
       x13 = x13 XOR (push_bit 9 (x9 + x5) OR drop_bit (32 - 9) (x9 + x5));
       x1 = x1 XOR (push_bit 13 (x13 + x9) OR drop_bit (32 - 13) (x13 + x9));
       x5 = x5 XOR (push_bit 18 (x1 + x13) OR drop_bit (32 - 18) (x1 + x13));
       x14 = x14 XOR (push_bit 7 (x10 + x6) OR drop_bit (32 - 7) (x10 + x6));
       x2 = x2 XOR (push_bit 9 (x14 + x10) OR drop_bit (32 - 9) (x14 + x10));
       x6 = x6 XOR (push_bit 13 (x2 + x14) OR drop_bit (32 - 13) (x2 + x14));
       x10 = x10 XOR (push_bit 18 (x6 + x2) OR drop_bit (32 - 18) (x6 + x2));
       x3 = x3 XOR (push_bit 7 (x15 + x11) OR drop_bit (32 - 7) (x15 + x11));
       x7 = x7 XOR (push_bit 9 (x3 + x15) OR drop_bit (32 - 9) (x3 + x15));
       x11 = x11 XOR (push_bit 13 (x7 + x3) OR drop_bit (32 - 13) (x7 + x3));
       x15 = x15 XOR (push_bit 18 (x11 + x7) OR drop_bit (32 - 18) (x11 + x7));
       x1 = x1 XOR (push_bit 7 (x0 + x3) OR drop_bit (32 - 7) (x0 + x3));
       x2 = x2 XOR (push_bit 9 (x1 + x0) OR drop_bit (32 - 9) (x1 + x0));
       x3 = x3 XOR (push_bit 13 (x2 + x1) OR drop_bit (32 - 13) (x2 + x1));
       x0 = x0 XOR (push_bit 18 (x3 + x2) OR drop_bit (32 - 18) (x3 + x2));
       x6 = x6 XOR (push_bit 7 (x5 + x4) OR drop_bit (32 - 7) (x5 + x4));
       x7 = x7 XOR (push_bit 9 (x6 + x5) OR drop_bit (32 - 9) (x6 + x5));
       x4 = x4 XOR (push_bit 13 (x7 + x6) OR drop_bit (32 - 13) (x7 + x6));
       x5 = x5 XOR (push_bit 18 (x4 + x7) OR drop_bit (32 - 18) (x4 + x7));
       x11 = x11 XOR (push_bit 7 (x10 + x9) OR drop_bit (32 - 7) (x10 + x9));
       x8 = x8 XOR (push_bit 9 (x11 + x10) OR drop_bit (32 - 9) (x11 + x10));
       x9 = x9 XOR (push_bit 13 (x8 + x11) OR drop_bit (32 - 13) (x8 + x11));
       x10 = x10 XOR (push_bit 18 (x9 + x8) OR drop_bit (32 - 18) (x9 + x8));
       x12 = x12 XOR (push_bit 7 (x15 + x14) OR drop_bit (32 - 7) (x15 + x14));
       x13 = x13 XOR (push_bit 9 (x12 + x15) OR drop_bit (32 - 9) (x12 + x15));
       x14 = x14 XOR (push_bit 13 (x13 + x12) OR drop_bit (32 - 13) (x13 + x12));
       x15 = x15 XOR (push_bit 18 (x14 + x13) OR drop_bit (32 - 18) (x14 + x13))
     in (x0, x1, x2, x3, x4, x5, x6, x7, x8, x9, x10, x11, x12, x13, x14, x15))"

function salsa_rounds :: "int \<Rightarrow> words16 \<Rightarrow> words16" where
  "salsa_rounds i x = (if i < 8 then salsa_rounds (i + 2) (double_round x) else x)"
  by pat_completeness auto
termination
  by (relation "measure (\<lambda>(i, x). nat (8 - i))") auto

declare salsa_rounds.simps [simp del]

text \<open>
  The last loop: \<open>for _, v := range w\<close> writes the four bytes of \<open>v\<close> at \<open>b[j]\<close>
  ... \<open>b[j+3]\<close> and advances \<open>j\<close> by 4.
\<close>

definition salsa_store :: "heap \<Rightarrow> slice \<Rightarrow> uint32 list \<Rightarrow> heap go" where
  "salsa_store h b w =
     and_then
       (for_loop 0 16
          (\<lambda>i (h, j). let v = w ! nat i in
             and_then (assign h b (j + 0) (ucast (drop_bit 0 v))) (\<lambda>h.
             and_then (assign h b (j + 1) (ucast (drop_bit 8 v))) (\<lambda>h.
             and_then (assign h b (j + 2) (ucast (drop_bit 16 v))) (\<lambda>h.
             and_then (assign h b (j + 3) (ucast (drop_bit 24 v))) (\<lambda>h.
               Inr (h, j + 4))))))
          (h, 0))
       (\<lambda>(h, j). Inr h)"

definition salsa :: "heap \<Rightarrow> slice \<Rightarrow> heap go" where
  "salsa h b =
     and_then (salsa_load h b) (\<lambda>w.
       let x0 = w ! 0;
       x1 = w ! 1;
       x2 = w ! 2;
       x3 = w ! 3;
       x4 = w ! 4;
       x5 = w ! 5;
       x6 = w ! 6;
       x7 = w ! 7;
       x8 = w ! 8;
       x9 = w ! 9;
       x10 = w ! 10;
       x11 = w ! 11;
       x12 = w ! 12;
       x13 = w ! 13;
       x14 = w ! 14;
       x15 = w ! 15;
       (x0, x1, x2, x3, x4, x5, x6, x7, x8, x9, x10, x11, x12, x13, x14, x15) =
         salsa_rounds 0 (x0, x1, x2, x3, x4, x5, x6, x7, x8, x9, x10, x11, x12, x13, x14, x15);
       w = w[0 := w ! 0 + x0];
       w = w[1 := w ! 1 + x1];
       w = w[2 := w ! 2 + x2];
       w = w[3 := w ! 3 + x3];
       w = w[4 := w ! 4 + x4];
       w = w[5 := w ! 5 + x5];
       w = w[6 := w ! 6 + x6];
       w = w[7 := w ! 7 + x7];
       w = w[8 := w ! 8 + x8];
       w = w[9 := w ! 9 + x9];
       w = w[10 := w ! 10 + x10];
       w = w[11 := w ! 11 + x11];
       w = w[12 := w ! 12 + x12];
       w = w[13 := w ! 13 + x13];
       w = w[14 := w ! 14 + x14];
       w = w[15 := w ! 15 + x15]
       in salsa_store h b w)"

section \<open>Salsa20/8 (part_000, first file: array argument)\<close>

text \<open>
  Here \<open>salsa\<close> takes a pointer to a \<open>[64]byte\<close> array: an address. Indexing a
  64-byte array with a constant below 64 cannot panic.
\<close>

definition double_round_arr :: "words16 \<Rightarrow> words16" where
  "double_round_arr = 
    (\<lambda>(x0, x1, x2, x3, x4, x5, x6, x7, x8, x9, x10, x11, x12, x13, x14, x15).
     let u = x0 + x12;
       x4 = x4 XOR (push_bit 7 u OR drop_bit (32 - 7) u);
       u = x4 + x0;
       x8 = x8 XOR (push_bit 9 u OR drop_bit (32 - 9) u);
       u = x8 + x4;
       x12 = x12 XOR (push_bit 13 u OR drop_bit (32 - 13) u);
       u = x12 + x8;
       x0 = x0 XOR (push_bit 18 u OR drop_bit (32 - 18) u);
       u = x5 + x1;
       x9 = x9 XOR (push_bit 7 u OR drop_bit (32 - 7) u);
       u = x9 + x5;
       x13 = x13 XOR (push_bit 9 u OR drop_bit (32 - 9) u);
       u = x13 + x9;
       x1 = x1 XOR (push_bit 13 u OR drop_bit (32 - 13) u);
       u = x1 + x13;
       x5 = x5 XOR (push_bit 18 u OR drop_bit (32 - 18) u);
       u = x10 + x6;
       x14 = x14 XOR (push_bit 7 u OR drop_bit (32 - 7) u);
       u = x14 + x10;
       x2 = x2 XOR (push_bit 9 u OR drop_bit (32 - 9) u);
       u = x2 + x14;
       x6 = x6 XOR (push_bit 13 u OR drop_bit (32 - 13) u);
       u = x6 + x2;
       x10 = x10 XOR (push_bit 18 u OR drop_bit (32 - 18) u);
       u = x15 + x11;
       x3 = x3 XOR (push_bit 7 u OR drop_bit (32 - 7) u);
       u = x3 + x15;
       x7 = x7 XOR (push_bit 9 u OR drop_bit (32 - 9) u);
       u = x7 + x3;
       x11 = x11 XOR (push_bit 13 u OR drop_bit (32 - 13) u);
       u = x11 + x7;
       x15 = x15 XOR (push_bit 18 u OR drop_bit (32 - 18) u);
       u = x0 + x3;
       x1 = x1 XOR (push_bit 7 u OR drop_bit (32 - 7) u);
       u = x1 + x0;
       x2 = x2 XOR (push_bit 9 u OR drop_bit (32 - 9) u);
       u = x2 + x1;
       x3 = x3 XOR (push_bit 13 u OR drop_bit (32 - 13) u);
       u = x3 + x2;
       x0 = x0 XOR (push_bit 18 u OR drop_bit (32 - 18) u);
       u = x5 + x4;
       x6 = x6 XOR (push_bit 7 u OR drop_bit (32 - 7) u);
       u = x6 + x5;
       x7 = x7 XOR (push_bit 9 u OR drop_bit (32 - 9) u);
       u = x7 + x6;
       x4 = x4 XOR (push_bit 13 u OR drop_bit (32 - 13) u);
       u = x4 + x7;
       x5 = x5 XOR (push_bit 18 u OR drop_bit (32 - 18) u);
       u = x10 + x9;
       x11 = x11 XOR (push_bit 7 u OR drop_bit (32 - 7) u);
       u = x11 + x10;
       x8 = x8 XOR (push_bit 9 u OR drop_bit (32 - 9) u);
       u = x8 + x11;
       x9 = x9 XOR (push_bit 13 u OR drop_bit (32 - 13) u);
       u = x9 + x8;
       x10 = x10 XOR (push_bit 18 u OR drop_bit (32 - 18) u);
       u = x15 + x14;
       x12 = x12 XOR (push_bit 7 u OR drop_bit (32 - 7) u);
       u = x12 + x15;
       x13 = x13 XOR (push_bit 9 u OR drop_bit (32 - 9) u);
       u = x13 + x12;
       x14 = x14 XOR (push_bit 13 u OR drop_bit (32 - 13) u);
       u = x14 + x13;
       x15 = x15 XOR (push_bit 18 u OR drop_bit (32 - 18) u)
     in (x0, x1, x2, x3, x4, x5, x6, x7, x8, x9, x10, x11, x12, x13, x14, x15))"

function salsa_rounds_arr :: "int \<Rightarrow> words16 \<Rightarrow> words16" where
  "salsa_rounds_arr i x = (if i < 8 then salsa_rounds_arr (i + 2) (double_round_arr x) else x)"
  by pat_completeness auto
termination
  by (relation "measure (\<lambda>(i, x). nat (8 - i))") auto

declare salsa_rounds_arr.simps [simp del]

text \<open>\<open>b[i] = v\<close> through the array pointer \<open>b\<close>.\<close>

definition set_arr :: "heap \<Rightarrow> nat \<Rightarrow> nat \<Rightarrow> byte \<Rightarrow> heap" where
  "set_arr h b i v = h\<lparr>mem := (mem h)(b + i := v)\<rparr>"

definition salsa_arr :: "heap \<Rightarrow> nat \<Rightarrow> heap" where
  "salsa_arr h b =
    (let w0 = ucast (mem h (b + 0)) OR push_bit 8 (ucast (mem h (b + 1))) OR
         push_bit 16 (ucast (mem h (b + 2))) OR push_bit 24 (ucast (mem h (b + 3)));
       w1 = ucast (mem h (b + 4)) OR push_bit 8 (ucast (mem h (b + 5))) OR
         push_bit 16 (ucast (mem h (b + 6))) OR push_bit 24 (ucast (mem h (b + 7)));
       w2 = ucast (mem h (b + 8)) OR push_bit 8 (ucast (mem h (b + 9))) OR
         push_bit 16 (ucast (mem h (b + 10))) OR push_bit 24 (ucast (mem h (b + 11)));
       w3 = ucast (mem h (b + 12)) OR push_bit 8 (ucast (mem h (b + 13))) OR
         push_bit 16 (ucast (mem h (b + 14))) OR push_bit 24 (ucast (mem h (b + 15)));
       w4 = ucast (mem h (b + 16)) OR push_bit 8 (ucast (mem h (b + 17))) OR
         push_bit 16 (ucast (mem h (b + 18))) OR push_bit 24 (ucast (mem h (b + 19)));
       w5 = ucast (mem h (b + 20)) OR push_bit 8 (ucast (mem h (b + 21))) OR
         push_bit 16 (ucast (mem h (b + 22))) OR push_bit 24 (ucast (mem h (b + 23)));
       w6 = ucast (mem h (b + 24)) OR push_bit 8 (ucast (mem h (b + 25))) OR
         push_bit 16 (ucast (mem h (b + 26))) OR push_bit 24 (ucast (mem h (b + 27)));
       w7 = ucast (mem h (b + 28)) OR push_bit 8 (ucast (mem h (b + 29))) OR
         push_bit 16 (ucast (mem h (b + 30))) OR push_bit 24 (ucast (mem h (b + 31)));
       w8 = ucast (mem h (b + 32)) OR push_bit 8 (ucast (mem h (b + 33))) OR
         push_bit 16 (ucast (mem h (b + 34))) OR push_bit 24 (ucast (mem h (b + 35)));
       w9 = ucast (mem h (b + 36)) OR push_bit 8 (ucast (mem h (b + 37))) OR
         push_bit 16 (ucast (mem h (b + 38))) OR push_bit 24 (ucast (mem h (b + 39)));
       w10 = ucast (mem h (b + 40)) OR push_bit 8 (ucast (mem h (b + 41))) OR
         push_bit 16 (ucast (mem h (b + 42))) OR push_bit 24 (ucast (mem h (b + 43)));
       w11 = ucast (mem h (b + 44)) OR push_bit 8 (ucast (mem h (b + 45))) OR
         push_bit 16 (ucast (mem h (b + 46))) OR push_bit 24 (ucast (mem h (b + 47)));
       w12 = ucast (mem h (b + 48)) OR push_bit 8 (ucast (mem h (b + 49))) OR
         push_bit 16 (ucast (mem h (b + 50))) OR push_bit 24 (ucast (mem h (b + 51)));
       w13 = ucast (mem h (b + 52)) OR push_bit 8 (ucast (mem h (b + 53))) OR
         push_bit 16 (ucast (mem h (b + 54))) OR push_bit 24 (ucast (mem h (b + 55)));
       w14 = ucast (mem h (b + 56)) OR push_bit 8 (ucast (mem h (b + 57))) OR
         push_bit 16 (ucast (mem h (b + 58))) OR push_bit 24 (ucast (mem h (b + 59)));
       w15 = ucast (mem h (b + 60)) OR push_bit 8 (ucast (mem h (b + 61))) OR
         push_bit 16 (ucast (mem h (b + 62))) OR push_bit 24 (ucast (mem h (b + 63)));
       (x0, x1, x2, x3, x4, x5, x6, x7, x8, x9, x10, x11, x12, x13, x14, x15) =
         salsa_rounds_arr 0
           (w0, w1, w2, w3, w4, w5, w6, w7, w8, w9, w10, w11, w12, w13, w14, w15);
       x0 = x0 + w0;
       x1 = x1 + w1;
       x2 = x2 + w2;
       x3 = x3 + w3;
       x4 = x4 + w4;
       x5 = x5 + w5;
       x6 = x6 + w6;
       x7 = x7 + w7;
       x8 = x8 + w8;
       x9 = x9 + w9;
       x10 = x10 + w10;
       x11 = x11 + w11;
       x12 = x12 + w12;
       x13 = x13 + w13;
       x14 = x14 + w14;
       x15 = x15 + w15;
       h = set_arr h b 0 (ucast x0);
       h = set_arr h b 1 (ucast (drop_bit 8 x0));
       h = set_arr h b 2 (ucast (drop_bit 16 x0));
       h = set_arr h b 3 (ucast (drop_bit 24 x0));
       h = set_arr h b 4 (ucast x1);
       h = set_arr h b 5 (ucast (drop_bit 8 x1));
       h = set_arr h b 6 (ucast (drop_bit 16 x1));
       h = set_arr h b 7 (ucast (drop_bit 24 x1));
       h = set_arr h b 8 (ucast x2);
       h = set_arr h b 9 (ucast (drop_bit 8 x2));
       h = set_arr h b 10 (ucast (drop_bit 16 x2));
       h = set_arr h b 11 (ucast (drop_bit 24 x2));
       h = set_arr h b 12 (ucast x3);
       h = set_arr h b 13 (ucast (drop_bit 8 x3));
       h = set_arr h b 14 (ucast (drop_bit 16 x3));
       h = set_arr h b 15 (ucast (drop_bit 24 x3));
       h = set_arr h b 16 (ucast x4);
       h = set_arr h b 17 (ucast (drop_bit 8 x4));
       h = set_arr h b 18 (ucast (drop_bit 16 x4));
       h = set_arr h b 19 (ucast (drop_bit 24 x4));
       h = set_arr h b 20 (ucast x5);
       h = set_arr h b 21 (ucast (drop_bit 8 x5));
       h = set_arr h b 22 (ucast (drop_bit 16 x5));
       h = set_arr h b 23 (ucast (drop_bit 24 x5));
       h = set_arr h b 24 (ucast x6);
       h = set_arr h b 25 (ucast (drop_bit 8 x6));
       h = set_arr h b 26 (ucast (drop_bit 16 x6));
       h = set_arr h b 27 (ucast (drop_bit 24 x6));
       h = set_arr h b 28 (ucast x7);
       h = set_arr h b 29 (ucast (drop_bit 8 x7));
       h = set_arr h b 30 (ucast (drop_bit 16 x7));
       h = set_arr h b 31 (ucast (drop_bit 24 x7));
       h = set_arr h b 32 (ucast x8);
       h = set_arr h b 33 (ucast (drop_bit 8 x8));
       h = set_arr h b 34 (ucast (drop_bit 16 x8));
       h = set_arr h b 35 (ucast (drop_bit 24 x8));
       h = set_arr h b 36 (ucast x9);
       h = set_arr h b 37 (ucast (drop_bit 8 x9));
       h = set_arr h b 38 (ucast (drop_bit 16 x9));
       h = set_arr h b 39 (ucast (drop_bit 24 x9));
       h = set_arr h b 40 (ucast x10);
       h = set_arr h b 41 (ucast (drop_bit 8 x10));
       h = set_arr h b 42 (ucast (drop_bit 16 x10));
       h = set_arr h b 43 (ucast (drop_bit 24 x10));
       h = set_arr h b 44 (ucast x11);
       h = set_arr h b 45 (ucast (drop_bit 8 x11));
       h = set_arr h b 46 (ucast (drop_bit 16 x11));
       h = set_arr h b 47 (ucast (drop_bit 24 x11));
       h = set_arr h b 48 (ucast x12);
       h = set_arr h b 49 (ucast (drop_bit 8 x12));
       h = set_arr h b 50 (ucast (drop_bit 16 x12));
       h = set_arr h b 51 (ucast (drop_bit 24 x12));
       h = set_arr h b 52 (ucast x13);
       h = set_arr h b 53 (ucast (drop_bit 8 x13));
       h = set_arr h b 54 (ucast (drop_bit 16 x13));
       h = set_arr h b 55 (ucast (drop_bit 24 x13));
       h = set_arr h b 56 (ucast x14);
       h = set_arr h b 57 (ucast (drop_bit 8 x14));
       h = set_arr h b 58 (ucast (drop_bit 16 x14));
       h = set_arr h b 59 (ucast (drop_bit 24 x14));
       h = set_arr h b 60 (ucast x15);
       h = set_arr h b 61 (ucast (drop_bit 8 x15));
       h = set_arr h b 62 (ucast (drop_bit 16 x15));
       h = set_arr h b 63 (ucast (drop_bit 24 x15))
     in h)"

section \<open>Salsa20/8 (part_000, second file: \<open>rot\<close> helper)\<close>

text \<open>
  \<open>binary.LittleEndian.Uint32\<close> and \<open>PutUint32\<close> are Go's standard library: they
  read and write \<open>b[0]\<close> ... \<open>b[3]\<close> and panic on a shorter slice.
\<close>

definition Uint32 :: "heap \<Rightarrow> slice \<Rightarrow> uint32 go" where
  "Uint32 h b =
     and_then (index h b 3) (\<lambda>b3.
     and_then (index h b 0) (\<lambda>b0.
     and_then (index h b 1) (\<lambda>b1.
     and_then (index h b 2) (\<lambda>b2.
       Inr (ucast b0 OR push_bit 8 (ucast b1) OR push_bit 16 (ucast b2) OR
            push_bit 24 (ucast b3))))))"

definition PutUint32 :: "heap \<Rightarrow> slice \<Rightarrow> uint32 \<Rightarrow> heap go" where
  "PutUint32 h b v =
     and_then (index h b 3) (\<lambda>_.
     and_then (assign h b 0 (ucast v)) (\<lambda>h.
     and_then (assign h b 1 (ucast (drop_bit 8 v))) (\<lambda>h.
     and_then (assign h b 2 (ucast (drop_bit 16 v))) (\<lambda>h.
       assign h b 3 (ucast (drop_bit 24 v))))))"

definition rot :: "uint32 \<Rightarrow> uint32 \<Rightarrow> uint32" where
  "rot a b = push_bit (unat b) a OR drop_bit (unat (32 - b)) a"

definition double_round_rot :: "uint32 list \<Rightarrow> uint32 list" where
  "double_round_rot x =
    (let x = x[4 := x ! 4 XOR rot (x ! 0 + x ! 12) 7];
       x = x[8 := x ! 8 XOR rot (x ! 4 + x ! 0) 9];
       x = x[12 := x ! 12 XOR rot (x ! 8 + x ! 4) 13];
       x = x[0 := x ! 0 XOR rot (x ! 12 + x ! 8) 18];
       x = x[9 := x ! 9 XOR rot (x ! 5 + x ! 1) 7];
       x = x[13 := x ! 13 XOR rot (x ! 9 + x ! 5) 9];
       x = x[1 := x ! 1 XOR rot (x ! 13 + x ! 9) 13];
       x = x[5 := x ! 5 XOR rot (x ! 1 + x ! 13) 18];
       x = x[14 := x ! 14 XOR rot (x ! 10 + x ! 6) 7];
       x = x[2 := x ! 2 XOR rot (x ! 14 + x ! 10) 9];
       x = x[6 := x ! 6 XOR rot (x ! 2 + x ! 14) 13];
       x = x[10 := x ! 10 XOR rot (x ! 6 + x ! 2) 18];
       x = x[3 := x ! 3 XOR rot (x ! 15 + x ! 11) 7];
       x = x[7 := x ! 7 XOR rot (x ! 3 + x ! 15) 9];
       x = x[11 := x ! 11 XOR rot (x ! 7 + x ! 3) 13];
       x = x[15 := x ! 15 XOR rot (x ! 11 + x ! 7) 18];
       x = x[1 := x ! 1 XOR rot (x ! 0 + x ! 3) 7];
       x = x[2 := x ! 2 XOR rot (x ! 1 + x ! 0) 9];
       x = x[3 := x ! 3 XOR rot (x ! 2 + x ! 1) 13];
       x = x[0 := x ! 0 XOR rot (x ! 3 + x ! 2) 18];
       x = x[6 := x ! 6 XOR rot (x ! 5 + x ! 4) 7];
       x = x[7 := x ! 7 XOR rot (x ! 6 + x ! 5) 9];
       x = x[4 := x ! 4 XOR rot (x ! 7 + x ! 6) 13];
       x = x[5 := x ! 5 XOR rot (x ! 4 + x ! 7) 18];
       x = x[11 := x ! 11 XOR rot (x ! 10 + x ! 9) 7];
       x = x[8 := x ! 8 XOR rot (x ! 11 + x ! 10) 9];
       x = x[9 := x ! 9 XOR rot (x ! 8 + x ! 11) 13];
       x = x[10 := x ! 10 XOR rot (x ! 9 + x ! 8) 18];
       x = x[12 := x ! 12 XOR rot (x ! 15 + x ! 14) 7];
       x = x[13 := x ! 13 XOR rot (x ! 12 + x ! 15) 9];
       x = x[14 := x ! 14 XOR rot (x ! 13 + x ! 12) 13];
       x = x[15 := x ! 15 XOR rot (x ! 14 + x ! 13) 18]
     in x)"

function salsa_rounds_rot :: "int \<Rightarrow> uint32 list \<Rightarrow> uint32 list" where
  "salsa_rounds_rot i x = (if i < 8 then salsa_rounds_rot (i + 2) (double_round_rot x) else x)"
  by pat_completeness auto
termination
  by (relation "measure (\<lambda>(i, x). nat (8 - i))") auto

declare salsa_rounds_rot.simps [simp del]

definition salsa_rot :: "heap \<Rightarrow> slice \<Rightarrow> heap go" where
  "salsa_rot h b =
     and_then
       (for_loop 0 16
          (\<lambda>i w. and_then (slice_from b (i * 4)) (\<lambda>s.
                 and_then (Uint32 h s) (\<lambda>v. Inr (w[nat i := v]))))
          (replicate 16 0))
       (\<lambda>w. let x = salsa_rounds_rot 0 w in
          for_loop 0 16
            (\<lambda>i h. let v = w ! nat i in
               and_then (slice_from b (i * 4)) (\<lambda>s. PutUint32 h s (v + x ! nat i)))
            h)"

section \<open>blockCopy, blockXOR, blockMix, integerify, smix\<close>

definition blockCopy :: "heap \<Rightarrow> slice \<Rightarrow> slice \<Rightarrow> int \<Rightarrow> heap go" where
  "blockCopy h dst src n = and_then (slice_to src n) (\<lambda>s. Inr (copy h dst s))"

text \<open>\<open>for i, v := range src[:n] { dst[i] ^= v }\<close>\<close>

definition blockXOR :: "heap \<Rightarrow> slice \<Rightarrow> slice \<Rightarrow> int \<Rightarrow> heap go" where
  "blockXOR h dst src n =
     and_then (slice_to src n) (\<lambda>s.
       for_loop 0 (int (len s))
         (\<lambda>i h. and_then (index h s i) (\<lambda>v.
                and_then (index h dst i) (\<lambda>d. assign h dst i (d XOR v))))
         h)"

text \<open>
  \<open>blockMix\<close> of scrypt.go and of the second file of part_000 are the same text; they
  differ in the \<open>salsa\<close> they call, which is the first argument here. The local
  \<open>x := make([]byte, 64)\<close> is a fresh array.
\<close>

definition blockMix_with ::
  "(heap \<Rightarrow> slice \<Rightarrow> heap go) \<Rightarrow> heap \<Rightarrow> slice \<Rightarrow> slice \<Rightarrow> int \<Rightarrow> heap go" where
  "blockMix_with salsa_fn h b y r =
     and_then (make h 64) (\<lambda>(h, x).
     and_then (slice_from b ((2 * r - 1) * 64)) (\<lambda>s.
     and_then (blockCopy h x s 64) (\<lambda>h.
     and_then
       (for_loop 0 (2 * r)
          (\<lambda>i h. and_then (slice_from b (i * 64)) (\<lambda>s.
                 and_then (blockXOR h x s 64) (\<lambda>h.
                 and_then (salsa_fn h x) (\<lambda>h.
                 and_then (slice_from y (i * 64)) (\<lambda>d.
                   blockCopy h d x 64)))))
          h) (\<lambda>h.
     and_then
       (for_loop 0 r
          (\<lambda>i h. and_then (slice_from b (i * 64)) (\<lambda>d.
                 and_then (slice_from y ((i * 2) * 64)) (\<lambda>s.
                   blockCopy h d s 64)))
          h) (\<lambda>h.
     for_loop 0 r
       (\<lambda>i h. and_then (slice_from b ((i + r) * 64)) (\<lambda>d.
              and_then (slice_from y ((i * 2 + 1) * 64)) (\<lambda>s.
                blockCopy h d s 64)))
       h)))))"

definition blockMix :: "heap \<Rightarrow> slice \<Rightarrow> slice \<Rightarrow> int \<Rightarrow> heap go" where
  "blockMix = blockMix_with salsa"

definition blockMix_rot :: "heap \<Rightarrow> slice \<Rightarrow> slice \<Rightarrow> int \<Rightarrow> heap go" where
  "blockMix_rot = blockMix_with salsa_rot"

text \<open>
  The first file of part_000 keeps \<open>x\<close> in a local \<open>[64]byte\<close> array and passes its
  address; \<open>dst[:]\<close> and \<open>src[:]\<close> are the whole array as a slice.
\<close>

definition arr64 :: "nat \<Rightarrow> slice" where
  "arr64 a = \<lparr>ptr = a, len = 64, cap = 64\<rparr>"

definition blockCopyFromArr :: "heap \<Rightarrow> slice \<Rightarrow> nat \<Rightarrow> heap" where
  "blockCopyFromArr h dst src = copy h dst (arr64 src)"

definition blockCopyToArr :: "heap \<Rightarrow> nat \<Rightarrow> slice \<Rightarrow> heap" where
  "blockCopyToArr h dst src = copy h (arr64 dst) src"

definition blockXORToArr :: "heap \<Rightarrow> nat \<Rightarrow> slice \<Rightarrow> heap go" where
  "blockXORToArr h dst src =
     and_then (slice_to src 64) (\<lambda>s.
       for_loop 0 (int (len s))
         (\<lambda>i h. and_then (index h s i) (\<lambda>v.
                and_then (index h (arr64 dst) i) (\<lambda>d. assign h (arr64 dst) i (d XOR v))))
         h)"

definition blockMix_arr :: "heap \<Rightarrow> slice \<Rightarrow> slice \<Rightarrow> int \<Rightarrow> heap go" where
  "blockMix_arr h b y r =
     and_then (make h 64) (\<lambda>(h, xs).
     let x = ptr xs in
     and_then (slice_from b ((2 * r - 1) * 64)) (\<lambda>s.
     let h = blockCopyToArr h x s in
     and_then
       (for_loop 0 (2 * r)
          (\<lambda>i h. and_then (slice_from b (i * 64)) (\<lambda>s.
                 and_then (blockXORToArr h x s) (\<lambda>h.
                 let h = salsa_arr h x in
                 and_then (slice_from y (i * 64)) (\<lambda>d.
                   Inr (blockCopyFromArr h d x)))))
          h) (\<lambda>h.
     and_then
       (for_loop 0 r
          (\<lambda>i h. and_then (slice_from b (i * 64)) (\<lambda>d.
                 and_then (slice_from y ((i * 2) * 64)) (\<lambda>s.
                   blockCopy h d s 64)))
          h) (\<lambda>h.
     for_loop 0 r
       (\<lambda>i h. and_then (slice_from b ((i + r) * 64)) (\<lambda>d.
              and_then (slice_from y ((i * 2 + 1) * 64)) (\<lambda>s.
                blockCopy h d s 64)))
       h))))"

text \<open>
  \<open>binary.LittleEndian.Uint64\<close> (Go's standard library) reads \<open>b[0]\<close> ... \<open>b[7]\<close>
  and panics on a shorter slice.
\<close>

definition Uint64 :: "heap \<Rightarrow> slice \<Rightarrow> uint64 go" where
  "Uint64 h b =
     and_then (index h b 7) (\<lambda>b7.
     and_then (index h b 0) (\<lambda>b0.
     and_then (index h b 1) (\<lambda>b1.
     and_then (index h b 2) (\<lambda>b2.
     and_then (index h b 3) (\<lambda>b3.
     and_then (index h b 4) (\<lambda>b4.
     and_then (index h b 5) (\<lambda>b5.
     and_then (index h b 6) (\<lambda>b6.
       Inr (ucast b0 OR push_bit 8 (ucast b1) OR push_bit 16 (ucast b2) OR
            push_bit 24 (ucast b3) OR push_bit 32 (ucast b4) OR push_bit 40 (ucast b5) OR
            push_bit 48 (ucast b6) OR push_bit 56 (ucast b7))))))))))"

definition integerify :: "heap \<Rightarrow> slice \<Rightarrow> int \<Rightarrow> uint64 go" where
  "integerify h b r = and_then (slice_from b ((2 * r - 1) * 64)) (\<lambda>s. Uint64 h s)"

text \<open>
  \<open>smix\<close> is the same text in the three files; the \<open>blockMix\<close> it calls is the first
  argument. \<open>int(integerify(x, r) & uint64(N-1))\<close> converts a 64-bit word to \<open>int\<close>.
\<close>

definition smix_with ::
  "(heap \<Rightarrow> slice \<Rightarrow> slice \<Rightarrow> int \<Rightarrow> heap go) \<Rightarrow>
   heap \<Rightarrow> slice \<Rightarrow> int \<Rightarrow> int \<Rightarrow> slice \<Rightarrow> slice \<Rightarrow> heap go" where
  "smix_with blockMix_fn h b r N v xy =
     (let x = xy in
      and_then (slice_from xy (128 * r)) (\<lambda>y.
      and_then (blockCopy h x b (128 * r)) (\<lambda>h.
      and_then
        (for_loop 0 N
           (\<lambda>i h. and_then (slice_from v (i * (128 * r))) (\<lambda>d.
                  and_then (blockCopy h d x (128 * r)) (\<lambda>h.
                    blockMix_fn h x y r)))
           h) (\<lambda>h.
      and_then
        (for_loop 0 N
           (\<lambda>i h. and_then (integerify h x r) (\<lambda>k.
                  let j = sint (k AND (word_of_int (N - 1) :: uint64)) in
                  and_then (slice_from v (j * (128 * r))) (\<lambda>s.
                  and_then (blockXOR h x s (128 * r)) (\<lambda>h.
                    blockMix_fn h x y r))))
           h) (\<lambda>h.
      blockCopy h b x (128 * r))))))"

definition smix :: "heap \<Rightarrow> slice \<Rightarrow> int \<Rightarrow> int \<Rightarrow> slice \<Rightarrow> slice \<Rightarrow> heap go" where
  "smix = smix_with blockMix"

definition smix_arr :: "heap \<Rightarrow> slice \<Rightarrow> int \<Rightarrow> int \<Rightarrow> slice \<Rightarrow> slice \<Rightarrow> heap go" where
  "smix_arr = smix_with blockMix_arr"

definition smix_rot :: "heap \<Rightarrow> slice \<Rightarrow> int \<Rightarrow> int \<Rightarrow> slice \<Rightarrow> slice \<Rightarrow> heap go" where
  "smix_rot = smix_with blockMix_rot"

section \<open>Key\<close>

text \<open>
  \<open>const maxInt = 1<<31 - 1\<close>. Go's integer division truncates towards zero and
  panics on a zero divisor. \<open>maxInt/128\<close> and \<open>maxInt/256\<close> are constant
  expressions; the divisions by \<open>p\<close> and by \<open>r\<close> happen at run time. \<open>||\<close>
  evaluates its right operand only when the left one is false.
\<close>

definition maxInt :: int where
  "maxInt = 2 ^ 31 - 1"

definition go_div :: "int \<Rightarrow> int \<Rightarrow> int go" where
  "go_div a b =
     (if b = 0 then Inl DivideByZero else Inr (sgn a * sgn b * (\<bar>a\<bar> div \<bar>b\<bar>)))"

definition too_large :: "int \<Rightarrow> int \<Rightarrow> int \<Rightarrow> bool go" where
  "too_large N r p =
     (if (word_of_int r :: uint64) * word_of_int p \<ge> 2 ^ 30 then Inr True
      else and_then (go_div (maxInt div 128) p) (\<lambda>q.
        if r > q then Inr True
        else if r > maxInt div 256 then Inr True
        else and_then (go_div (maxInt div 128) r) (\<lambda>q. Inr (N > q))))"

text \<open>
  \<open>pbkdf2.Key\<close> (package go.crypto/pbkdf2, with \<open>sha256.New\<close>) is not part of this
  repository: it is the parameter \<open>pbkdf2\<close>, a function of the password, the salt, the
  iteration count and the key length. A Go \<open>error\<close> made by \<open>errors.New\<close> is its
  message; \<open>None\<close> is \<open>nil\<close>.

  The three files' \<open>Key\<close> are the same text but for the constant of the first
  comparison (\<open>N <= 1\<close> in scrypt.go and in the first file of part_000, \<open>N <= 0\<close> in
  the second) and the \<open>smix\<close> they call: the first two arguments here.
\<close>

type_synonym kdf = "byte list \<Rightarrow> byte list \<Rightarrow> int \<Rightarrow> int \<Rightarrow> byte list"

definition Key_with ::
  "(heap \<Rightarrow> slice \<Rightarrow> int \<Rightarrow> int \<Rightarrow> slice \<Rightarrow> slice \<Rightarrow> heap go) \<Rightarrow> int \<Rightarrow> kdf \<Rightarrow>
   byte list \<Rightarrow> byte list \<Rightarrow> int \<Rightarrow> int \<Rightarrow> int \<Rightarrow> int \<Rightarrow>
   (byte list option \<times> string option) go" where
  "Key_with smix_fn lo pbkdf2 password salt N r p keyLen =
     (if N \<le> lo \<or> N AND (N - 1) \<noteq> 0
      then Inr (None, Some ''scrypt: N must be > 1 and a power of 2'')
      else and_then (too_large N r p) (\<lambda>large.
        if large then Inr (None, Some ''scrypt: parameters are too large'')
        else
          and_then (make empty_heap (256 * r)) (\<lambda>(h, xy).
          and_then (make h (128 * r * N)) (\<lambda>(h, v).
          let (h, b) = fresh_slice h (pbkdf2 password salt 1 (p * 128 * r)) in
          and_then
            (for_loop 0 p
               (\<lambda>i h. and_then (slice_from b (i * 128 * r)) (\<lambda>s. smix_fn h s r N v xy))
               h) (\<lambda>h.
          Inr (Some (pbkdf2 password (bytes h b) 1 keyLen), None))))))"

definition Key :: "kdf \<Rightarrow> byte list \<Rightarrow> byte list \<Rightarrow> int \<Rightarrow> int \<Rightarrow> int \<Rightarrow> int \<Rightarrow>
    (byte list option \<times> string option) go" where
  "Key = Key_with smix 1"

definition Key_arr :: "kdf \<Rightarrow> byte list \<Rightarrow> byte list \<Rightarrow> int \<Rightarrow> int \<Rightarrow> int \<Rightarrow> int \<Rightarrow>
    (byte list option \<times> string option) go" where
  "Key_arr = Key_with smix_arr 1"

definition Key_rot :: "kdf \<Rightarrow> byte list \<Rightarrow> byte list \<Rightarrow> int \<Rightarrow> int \<Rightarrow> int \<Rightarrow> int \<Rightarrow>
    (byte list option \<times> string option) go" where
  "Key_rot = Key_with smix_rot 0"

section \<open>The functions of the specification\<close>

text \<open>
  These definitions follow the specification's words, on byte sequences and without
  memory; the theorems compare the code with them.
\<close>

subsection \<open>Salsa20/8\<close>

text \<open>Little-endian decoding of a byte sequence, and the four bytes of a word.\<close>

definition le_word :: "byte list \<Rightarrow> 'a::len word" where
  "le_word bs = foldr (\<lambda>b w. ucast b + 256 * w) bs 0"

definition le_bytes :: "uint32 \<Rightarrow> byte list" where
  "le_bytes v = map (\<lambda>i. ucast (v div 256 ^ i)) [0..<4]"

definition rotl32 :: "uint32 \<Rightarrow> nat \<Rightarrow> uint32" where
  "rotl32 x n = word_rotl n x"

definition quarter_round :: "nat \<times> nat \<times> nat \<times> nat \<Rightarrow> uint32 list \<Rightarrow> uint32 list" where
  "quarter_round = (\<lambda>(a, b, c, d) x.
     let x = x[b := x ! b XOR rotl32 (x ! a + x ! d) 7];
         x = x[c := x ! c XOR rotl32 (x ! b + x ! a) 9];
         x = x[d := x ! d XOR rotl32 (x ! c + x ! b) 13];
         x = x[a := x ! a XOR rotl32 (x ! d + x ! c) 18]
     in x)"

definition column_schedule :: "(nat \<times> nat \<times> nat \<times> nat) list" where
  "column_schedule = [(0, 4, 8, 12), (5, 9, 13, 1), (10, 14, 2, 6), (15, 3, 7, 11)]"

definition row_schedule :: "(nat \<times> nat \<times> nat \<times> nat) list" where
  "row_schedule = [(0, 1, 2, 3), (5, 6, 7, 4), (10, 11, 8, 9), (15, 12, 13, 14)]"

definition column_step :: "uint32 list \<Rightarrow> uint32 list" where
  "column_step x = fold quarter_round column_schedule x"

definition row_step :: "uint32 list \<Rightarrow> uint32 list" where
  "row_step x = fold quarter_round row_schedule x"

definition double_round_spec :: "uint32 list \<Rightarrow> uint32 list" where
  "double_round_spec x = row_step (column_step x)"

definition Salsa20_8 :: "byte list \<Rightarrow> byte list" where
  "Salsa20_8 b =
     (let w = map (\<lambda>i. le_word (take 4 (drop (4 * i) b))) [0..<16];
          x = (double_round_spec ^^ 4) w
      in concat (map (\<lambda>i. le_bytes (x ! i + w ! i)) [0..<16]))"

subsection \<open>BlockMix, Integerify, SMix\<close>

definition xor_bytes :: "byte list \<Rightarrow> byte list \<Rightarrow> byte list" where
  "xor_bytes a b = map2 (XOR) a b"

text \<open>\<open>B[i\<cdot>64 : (i+1)\<cdot>64]\<close>\<close>

definition sub_block :: "byte list \<Rightarrow> nat \<Rightarrow> byte list" where
  "sub_block B i = take 64 (drop (i * 64) B)"

definition BlockMix :: "nat \<Rightarrow> byte list \<Rightarrow> byte list" where
  "BlockMix r B =
     (let X = sub_block B (2 * r - 1);
          (X, Y) = fold (\<lambda>i (X, Y). let X = Salsa20_8 (xor_bytes X (sub_block B i))
                                      in (X, Y[i := X]))
                     [0..<2 * r] (X, replicate (2 * r) [])
      in concat (map (\<lambda>i. Y ! (2 * i)) [0..<r]) @ concat (map (\<lambda>i. Y ! (2 * i + 1)) [0..<r]))"

definition Integerify :: "nat \<Rightarrow> byte list \<Rightarrow> uint64" where
  "Integerify r B = le_word (take 8 (drop ((2 * r - 1) * 64) B))"

definition SMix :: "nat \<Rightarrow> nat \<Rightarrow> byte list \<Rightarrow> byte list" where
  "SMix r N B =
     (let X = B;
          (X, V) = fold (\<lambda>i (X, V). (BlockMix r X, V[i := X])) [0..<N] (X, replicate N []);
          X = fold (\<lambda>i X. let j = unat (Integerify r X AND word_of_nat (N - 1))
                           in BlockMix r (xor_bytes X (V ! j)))
                [0..<N] X
      in X)"

subsection \<open>The key derivation\<close>

definition scrypt :: "kdf \<Rightarrow> byte list \<Rightarrow> byte list \<Rightarrow> nat \<Rightarrow> nat \<Rightarrow> nat \<Rightarrow> int \<Rightarrow> byte list" where
  "scrypt pbkdf2 password salt N r p keyLen =
     (let B = pbkdf2 password salt 1 (int (p * 128 * r));
          B = fold (\<lambda>i B. take (i * 128 * r) B @
                           SMix r N (take (128 * r) (drop (i * 128 * r) B)) @
                           drop ((i + 1) * 128 * r) B)
                [0..<p] B
      in pbkdf2 password B 1 keyLen)"

section \<open>Lemmas: sequencing, loops and memory\<close>

lemma and_then_Inr [simp]: "and_then (Inr a) f = f a"
  by (simp add: and_then_def)

lemma and_then_Inl [simp]: "and_then (Inl e) f = Inl e"
  by (simp add: and_then_def)

lemma for_loop_inv:
  assumes "i \<le> n" and "I i s"
    and "\<And>k t. i \<le> k \<Longrightarrow> k < n \<Longrightarrow> I k t \<Longrightarrow> \<exists>t'. body k t = Inr t' \<and> I (k + 1) t'"
  shows "\<exists>s'. for_loop i n body s = Inr s' \<and> I n s'"
  using assms
proof (induction i n body s rule: for_loop.induct)
  case (1 i n body s)
  show ?case
  proof (cases "i < n")
    case True
    from 1(4)[of i s] True 1(3) obtain t where t: "body i s = Inr t" "I (i + 1) t" by auto
    have "\<exists>s'. for_loop (i + 1) n body t = Inr s' \<and> I n s'"
      by (rule 1(1)[OF True t(1)]) (use True t 1(4) in auto)
    then show ?thesis using True t by (subst for_loop.simps) simp
  next
    case False
    with 1(2,3) show ?thesis by (subst for_loop.simps) simp
  qed
qed

lemma for_loop_done [simp]: "n \<le> i \<Longrightarrow> for_loop i n body s = Inr s"
  by (subst for_loop.simps) simp

subsection \<open>Memory\<close>

lemma heap_eqI: "mem h = mem h' \<Longrightarrow> brk h = brk h' \<Longrightarrow> h = (h' :: heap)"
  by simp

lemma length_bytes_at [simp]: "length (bytes_at h a n) = n"
  by (simp add: bytes_at_def)

lemma nth_bytes_at [simp]: "i < n \<Longrightarrow> bytes_at h a n ! i = mem h (a + i)"
  by (simp add: bytes_at_def)

lemma bytes_at_0 [simp]: "bytes_at h a 0 = []"
  by (simp add: bytes_at_def)

lemma bytes_at_Suc: "bytes_at h a (Suc n) = bytes_at h a n @ [mem h (a + n)]"
  by (simp add: bytes_at_def)

lemma bytes_at_add: "bytes_at h a (m + n) = bytes_at h a m @ bytes_at h (a + m) n"
  by (rule nth_equalityI) (auto simp: nth_append add.assoc)

lemma take_bytes_at [simp]: "take m (bytes_at h a n) = bytes_at h a (min m n)"
  by (rule nth_equalityI) auto

lemma drop_bytes_at [simp]: "drop m (bytes_at h a n) = bytes_at h (a + m) (n - m)"
  by (rule nth_equalityI) (auto simp: add.assoc)

lemma bytes_at_cong: "(\<And>k. a \<le> k \<Longrightarrow> k < a + n \<Longrightarrow> mem h k = mem h' k) \<Longrightarrow> bytes_at h a n = bytes_at h' a n"
  by (rule nth_equalityI) auto

lemma mem_store_at: "mem (store_at h a bs) k = (if a \<le> k \<and> k < a + length bs then bs ! (k - a) else mem h k)"
  by (simp add: store_at_def)

lemma brk_store_at [simp]: "brk (store_at h a bs) = brk h"
  by (simp add: store_at_def)

lemma store_at_Nil [simp]: "store_at h a [] = h"
  by (rule heap_eqI) (auto simp: mem_store_at fun_eq_iff)

lemma bytes_at_store_at_same [simp]: "n = length bs \<Longrightarrow> bytes_at (store_at h a bs) a n = bs"
  by (rule nth_equalityI) (auto simp: mem_store_at)

lemma bytes_at_store_at_inside: "k + n \<le> length bs \<Longrightarrow> bytes_at (store_at h a bs) (a + k) n = take n (drop k bs)"
  by (rule nth_equalityI) (auto simp: mem_store_at add.assoc)

lemma bytes_at_store_at_outside: "c + n \<le> a \<or> a + length bs \<le> c \<Longrightarrow> bytes_at (store_at h a bs) c n = bytes_at h c n"
  by (rule nth_equalityI) (auto simp: mem_store_at)

lemma store_at_snoc: "store_at (store_at h a bs) (a + length bs) [v] = store_at h a (bs @ [v])"
  by (rule heap_eqI) (auto simp: mem_store_at fun_eq_iff nth_append)

lemma store_at_append: "store_at (store_at h a bs) (a + length bs) cs = store_at h a (bs @ cs)"
  by (rule heap_eqI) (auto simp: mem_store_at fun_eq_iff nth_append)

lemma store_at_store_at_same: "length cs = length bs \<Longrightarrow> store_at (store_at h a bs) a cs = store_at h a cs"
  by (rule heap_eqI) (auto simp: mem_store_at fun_eq_iff)

lemma assign_store_at: "0 \<le> i \<Longrightarrow> i < int (len s) \<Longrightarrow> assign h s i v = Inr (store_at h (ptr s + nat i) [v])"
  by (auto simp: assign_def store_at_def fun_eq_iff intro!: heap_eqI)

lemma index_ok: "0 \<le> i \<Longrightarrow> i < int (len s) \<Longrightarrow> index h s i = Inr (mem h (ptr s + nat i))"
  by (simp add: index_def)

lemma copy_store_at: "copy h dst src = store_at h (ptr dst) (bytes_at h (ptr src) (min (len dst) (len src)))"
proof (rule heap_eqI)
  show "mem (copy h dst src) =
        mem (store_at h (ptr dst) (bytes_at h (ptr src) (min (len dst) (len src))))"
  proof
    fix k
    show "mem (copy h dst src) k =
          mem (store_at h (ptr dst) (bytes_at h (ptr src) (min (len dst) (len src)))) k"
    proof (cases "ptr dst \<le> k \<and> k < ptr dst + min (len dst) (len src)")
      case True
      then have "k - ptr dst < min (len dst) (len src)" by linarith
      then have "bytes_at h (ptr src) (min (len dst) (len src)) ! (k - ptr dst) =
                 mem h (ptr src + (k - ptr dst))"
        by (rule nth_bytes_at)
      with True show ?thesis by (simp add: copy_def mem_store_at)
    next
      case False
      then show ?thesis by (auto simp: copy_def mem_store_at)
    qed
  qed
qed (simp add: copy_def)

section \<open>Lemmas: Salsa20/8\<close>

subsection \<open>Words\<close>

lemma rot_eq:
  assumes "0 < n" "n < 32"
  shows "push_bit n (u::uint32) OR drop_bit (32 - n) u = rotl32 u n"
  unfolding rotl32_def
proof (rule bit_eqI)
  fix k
  show "bit (push_bit n u OR drop_bit (32 - n) u) k = bit (word_rotl n u) k"
  proof (cases "k < 32")
    case False
    then show ?thesis by (auto simp: bit_simps dest: bit_imp_le_length)
  next
    case k: True
    show ?thesis
    proof (cases "n \<le> k")
      case True
      then have "(k + (32 - n)) mod 32 = k - n" using assms k
        by (metis Nat.add_diff_assoc2 add.commute less_imp_le_nat mod_add_self1 mod_less less_imp_diff_less)
      moreover have "\<not> bit u (32 - n + k)" using True assms k by (auto dest: bit_imp_le_length)
      ultimately show ?thesis using True assms k by (simp add: bit_simps)
    next
      case False
      then have "(k + (32 - n)) mod 32 = 32 - n + k" using assms k by simp
      then show ?thesis using False assms k by (simp add: bit_simps)
    qed
  qed
qed

lemma rot_rotl32: "b = 7 \<or> b = 9 \<or> b = 13 \<or> b = 18 \<Longrightarrow> rot a b = rotl32 a (unat b)"
  unfolding rot_def by (rule trans[OF _ rot_eq]) auto

lemma byte_cons: "ucast (b::byte) + 256 * (w::'a::len word) = ucast b OR push_bit 8 w"
proof -
  have "ucast b + push_bit 8 w = ucast b OR push_bit 8 w"
    by (rule disjunctive_add) (auto simp: bit_simps dest: bit_imp_le_length)
  then show ?thesis by (simp add: push_bit_eq_mult mult.commute)
qed

lemma le32:
  "ucast (b0::byte) OR push_bit 8 (ucast (b1::byte)) OR push_bit 16 (ucast (b2::byte)) OR
   push_bit 24 (ucast (b3::byte)) = (le_word [b0, b1, b2, b3] :: uint32)"
  unfolding le_word_def foldr.simps o_def byte_cons
  by (simp add: push_bit_or push_bit_push_bit ac_simps del: push_bit_eq_mult)

lemma le64:
  "ucast (b0::byte) OR push_bit 8 (ucast (b1::byte)) OR push_bit 16 (ucast (b2::byte)) OR
   push_bit 24 (ucast (b3::byte)) OR push_bit 32 (ucast (b4::byte)) OR
   push_bit 40 (ucast (b5::byte)) OR push_bit 48 (ucast (b6::byte)) OR
   push_bit 56 (ucast (b7::byte)) = (le_word [b0, b1, b2, b3, b4, b5, b6, b7] :: uint64)"
  unfolding le_word_def foldr.simps o_def byte_cons
  by (simp add: push_bit_or push_bit_push_bit ac_simps del: push_bit_eq_mult)

lemma le_bytes_eq:
  "le_bytes v = [ucast v, ucast (drop_bit 8 v), ucast (drop_bit 16 v), ucast (drop_bit 24 v)]"
  by (simp add: le_bytes_def drop_bit_eq_div upt_rec)

subsection \<open>The double round\<close>

definition list16 :: "words16 \<Rightarrow> uint32 list" where
  "list16 = (\<lambda>(x0, x1, x2, x3, x4, x5, x6, x7, x8, x9, x10, x11, x12, x13, x14, x15).
     [x0, x1, x2, x3, x4, x5, x6, x7, x8, x9, x10, x11, x12, x13, x14, x15])"

lemma length_list16 [simp]: "\<And>t. length (list16 t) = 16"
  by (simp add: split_paired_all list16_def)

lemma r7: "push_bit 7 (u::uint32) OR drop_bit (32 - 7) u = rotl32 u 7" by (rule rot_eq) auto
lemma r9: "push_bit 9 (u::uint32) OR drop_bit (32 - 9) u = rotl32 u 9" by (rule rot_eq) auto
lemma r13: "push_bit 13 (u::uint32) OR drop_bit (32 - 13) u = rotl32 u 13" by (rule rot_eq) auto
lemma r18: "push_bit 18 (u::uint32) OR drop_bit (32 - 18) u = rotl32 u 18" by (rule rot_eq) auto

lemma nth16:
  "[x0, x1, x2, x3, x4, x5, x6, x7, x8, x9, x10, x11, x12, x13, x14, x15] ! 0 = x0"
  "[x0, x1, x2, x3, x4, x5, x6, x7, x8, x9, x10, x11, x12, x13, x14, x15] ! 1 = x1"
  "[x0, x1, x2, x3, x4, x5, x6, x7, x8, x9, x10, x11, x12, x13, x14, x15] ! 2 = x2"
  "[x0, x1, x2, x3, x4, x5, x6, x7, x8, x9, x10, x11, x12, x13, x14, x15] ! 3 = x3"
  "[x0, x1, x2, x3, x4, x5, x6, x7, x8, x9, x10, x11, x12, x13, x14, x15] ! 4 = x4"
  "[x0, x1, x2, x3, x4, x5, x6, x7, x8, x9, x10, x11, x12, x13, x14, x15] ! 5 = x5"
  "[x0, x1, x2, x3, x4, x5, x6, x7, x8, x9, x10, x11, x12, x13, x14, x15] ! 6 = x6"
  "[x0, x1, x2, x3, x4, x5, x6, x7, x8, x9, x10, x11, x12, x13, x14, x15] ! 7 = x7"
  "[x0, x1, x2, x3, x4, x5, x6, x7, x8, x9, x10, x11, x12, x13, x14, x15] ! 8 = x8"
  "[x0, x1, x2, x3, x4, x5, x6, x7, x8, x9, x10, x11, x12, x13, x14, x15] ! 9 = x9"
  "[x0, x1, x2, x3, x4, x5, x6, x7, x8, x9, x10, x11, x12, x13, x14, x15] ! 10 = x10"
  "[x0, x1, x2, x3, x4, x5, x6, x7, x8, x9, x10, x11, x12, x13, x14, x15] ! 11 = x11"
  "[x0, x1, x2, x3, x4, x5, x6, x7, x8, x9, x10, x11, x12, x13, x14, x15] ! 12 = x12"
  "[x0, x1, x2, x3, x4, x5, x6, x7, x8, x9, x10, x11, x12, x13, x14, x15] ! 13 = x13"
  "[x0, x1, x2, x3, x4, x5, x6, x7, x8, x9, x10, x11, x12, x13, x14, x15] ! 14 = x14"
  "[x0, x1, x2, x3, x4, x5, x6, x7, x8, x9, x10, x11, x12, x13, x14, x15] ! 15 = x15"
  by simp_all

lemma upd16:
  "[x0, x1, x2, x3, x4, x5, x6, x7, x8, x9, x10, x11, x12, x13, x14, x15][0 := v] = [v, x1, x2, x3, x4, x5, x6, x7, x8, x9, x10, x11, x12, x13, x14, x15]"
  "[x0, x1, x2, x3, x4, x5, x6, x7, x8, x9, x10, x11, x12, x13, x14, x15][1 := v] = [x0, v, x2, x3, x4, x5, x6, x7, x8, x9, x10, x11, x12, x13, x14, x15]"
  "[x0, x1, x2, x3, x4, x5, x6, x7, x8, x9, x10, x11, x12, x13, x14, x15][2 := v] = [x0, x1, v, x3, x4, x5, x6, x7, x8, x9, x10, x11, x12, x13, x14, x15]"
  "[x0, x1, x2, x3, x4, x5, x6, x7, x8, x9, x10, x11, x12, x13, x14, x15][3 := v] = [x0, x1, x2, v, x4, x5, x6, x7, x8, x9, x10, x11, x12, x13, x14, x15]"
  "[x0, x1, x2, x3, x4, x5, x6, x7, x8, x9, x10, x11, x12, x13, x14, x15][4 := v] = [x0, x1, x2, x3, v, x5, x6, x7, x8, x9, x10, x11, x12, x13, x14, x15]"
  "[x0, x1, x2, x3, x4, x5, x6, x7, x8, x9, x10, x11, x12, x13, x14, x15][5 := v] = [x0, x1, x2, x3, x4, v, x6, x7, x8, x9, x10, x11, x12, x13, x14, x15]"
  "[x0, x1, x2, x3, x4, x5, x6, x7, x8, x9, x10, x11, x12, x13, x14, x15][6 := v] = [x0, x1, x2, x3, x4, x5, v, x7, x8, x9, x10, x11, x12, x13, x14, x15]"
  "[x0, x1, x2, x3, x4, x5, x6, x7, x8, x9, x10, x11, x12, x13, x14, x15][7 := v] = [x0, x1, x2, x3, x4, x5, x6, v, x8, x9, x10, x11, x12, x13, x14, x15]"
  "[x0, x1, x2, x3, x4, x5, x6, x7, x8, x9, x10, x11, x12, x13, x14, x15][8 := v] = [x0, x1, x2, x3, x4, x5, x6, x7, v, x9, x10, x11, x12, x13, x14, x15]"
  "[x0, x1, x2, x3, x4, x5, x6, x7, x8, x9, x10, x11, x12, x13, x14, x15][9 := v] = [x0, x1, x2, x3, x4, x5, x6, x7, x8, v, x10, x11, x12, x13, x14, x15]"
  "[x0, x1, x2, x3, x4, x5, x6, x7, x8, x9, x10, x11, x12, x13, x14, x15][10 := v] = [x0, x1, x2, x3, x4, x5, x6, x7, x8, x9, v, x11, x12, x13, x14, x15]"
  "[x0, x1, x2, x3, x4, x5, x6, x7, x8, x9, x10, x11, x12, x13, x14, x15][11 := v] = [x0, x1, x2, x3, x4, x5, x6, x7, x8, x9, x10, v, x12, x13, x14, x15]"
  "[x0, x1, x2, x3, x4, x5, x6, x7, x8, x9, x10, x11, x12, x13, x14, x15][12 := v] = [x0, x1, x2, x3, x4, x5, x6, x7, x8, x9, x10, x11, v, x13, x14, x15]"
  "[x0, x1, x2, x3, x4, x5, x6, x7, x8, x9, x10, x11, x12, x13, x14, x15][13 := v] = [x0, x1, x2, x3, x4, x5, x6, x7, x8, x9, x10, x11, x12, v, x14, x15]"
  "[x0, x1, x2, x3, x4, x5, x6, x7, x8, x9, x10, x11, x12, x13, x14, x15][14 := v] = [x0, x1, x2, x3, x4, x5, x6, x7, x8, x9, x10, x11, x12, x13, v, x15]"
  "[x0, x1, x2, x3, x4, x5, x6, x7, x8, x9, x10, x11, x12, x13, x14, x15][15 := v] = [x0, x1, x2, x3, x4, x5, x6, x7, x8, x9, x10, x11, x12, x13, x14, v]"
  by simp_all

lemma double_round_refines: "\<And>t. list16 (double_round t) = double_round_spec (list16 t)"
  apply (simp only: split_paired_all)
  apply (simp only: double_round_def double_round_spec_def row_step_def column_step_def
     quarter_round_def column_schedule_def row_schedule_def list16_def Let_def
     r7 r9 r13 r18 prod.case fold.simps o_apply id_apply nth16 upd16)
  done

lemma salsa_rounds_4:
  "salsa_rounds 0 t = double_round (double_round (double_round (double_round t)))"
  by (simp add: salsa_rounds.simps)

lemma list16_salsa_rounds: "list16 (salsa_rounds 0 t) = (double_round_spec ^^ 4) (list16 t)"
  by (simp add: salsa_rounds_4 double_round_refines eval_nat_numeral)

lemma bytes_at_4: "bytes_at h a 4 = [mem h a, mem h (a + 1), mem h (a + 2), mem h (a + 3)]"
  by (rule nth_equalityI) (auto simp: less_Suc_eq eval_nat_numeral)

lemma salsa_load_ok:
  assumes "64 \<le> len b"
  shows "salsa_load h b = Inr (map (\<lambda>i. le_word (bytes_at h (ptr b + 4 * i) 4)) [0..<16])"
proof -
  let ?f = "\<lambda>i. le_word (bytes_at h (ptr b + 4 * i) 4) :: uint32"
  let ?I = "\<lambda>k w. length w = 16 \<and> (\<forall>m < nat k. w ! m = ?f m)"
  have "\<exists>w. salsa_load h b = Inr w \<and> ?I 16 w"
    unfolding salsa_load_def
  proof (rule for_loop_inv)
    show "?I 0 (replicate 16 0)" by simp
  next
    fix k :: int and t :: "uint32 list"
    assume k: "0 \<le> k" "k < 16" and t: "?I k t"
    have idx: "index h b (k * 4) = Inr (mem h (ptr b + 4 * nat k))"
      "index h b (k * 4 + 1) = Inr (mem h (ptr b + 4 * nat k + 1))"
      "index h b (k * 4 + 2) = Inr (mem h (ptr b + 4 * nat k + 2))"
      "index h b (k * 4 + 3) = Inr (mem h (ptr b + 4 * nat k + 3))"
      using k assms by (auto simp: index_def nat_add_distrib nat_mult_distrib ac_simps)
    have n: "nat (k + 1) = Suc (nat k)" "nat k < 16" using k by auto
    show "\<exists>t'. (let j = k * 4 in
          and_then (index h b j) (\<lambda>b0.
          and_then (index h b (j + 1)) (\<lambda>b1.
          and_then (index h b (j + 2)) (\<lambda>b2.
          and_then (index h b (j + 3)) (\<lambda>b3.
            Inr (t[nat k := ucast b0 OR push_bit 8 (ucast b1) OR
                             push_bit 16 (ucast b2) OR push_bit 24 (ucast b3)])))))) = Inr t' \<and>
          ?I (k + 1) t'"
      unfolding Let_def idx and_then_Inr le32 n
      using t n(2) by (auto simp: nth_list_update less_Suc_eq bytes_at_4)
  qed simp
  then obtain w where w: "salsa_load h b = Inr w" "length w = 16" "\<forall>m < 16. w ! m = ?f m"
    by auto
  have "w = map ?f [0..<16]"
    by (rule nth_equalityI) (use w in auto)
  with w show ?thesis by simp
qed

lemma le_bytes_length [simp]: "length (le_bytes v) = 4"
  by (simp add: le_bytes_def)

lemma length_concat_le_bytes [simp]: "length (concat (map le_bytes w)) = 4 * length w"
  by (induction w) auto

lemma store_at_append': "a' = a + length bs \<Longrightarrow> store_at (store_at h a bs) a' cs = store_at h a (bs @ cs)"
  by (simp add: store_at_append)

lemma store_at_4:
  assumes "length bs = n"
  shows "store_at (store_at (store_at (store_at (store_at h a bs) (a + n) [v0]) (a + n + 1) [v1])
           (a + n + 2) [v2]) (a + n + 3) [v3] = store_at h a (bs @ [v0, v1, v2, v3])"
proof -
  have "store_at (store_at h a bs) (a + n) [v0] = store_at h a (bs @ [v0])"
    by (rule store_at_append') (simp add: assms)
  moreover have "store_at (store_at h a (bs @ [v0])) (a + n + 1) [v1] = store_at h a ((bs @ [v0]) @ [v1])"
    by (rule store_at_append') (simp add: assms)
  moreover have "store_at (store_at h a ((bs @ [v0]) @ [v1])) (a + n + 2) [v2] =
      store_at h a (((bs @ [v0]) @ [v1]) @ [v2])"
    by (rule store_at_append') (simp add: assms)
  moreover have "store_at (store_at h a (((bs @ [v0]) @ [v1]) @ [v2])) (a + n + 3) [v3] =
      store_at h a ((((bs @ [v0]) @ [v1]) @ [v2]) @ [v3])"
    by (rule store_at_append') (simp add: assms)
  ultimately show ?thesis by simp
qed

lemma salsa_store_ok:
  assumes "64 \<le> len b" "length w = 16"
  shows "salsa_store h b w = Inr (store_at h (ptr b) (concat (map le_bytes w)))"
proof -
  let ?I = "\<lambda>k (h', j). j = k * 4 \<and> h' = store_at h (ptr b) (concat (map le_bytes (take (nat k) w)))"
  have "\<exists>s. for_loop 0 16
          (\<lambda>i (h, j). let v = w ! nat i in
             and_then (assign h b (j + 0) (ucast (drop_bit 0 v))) (\<lambda>h.
             and_then (assign h b (j + 1) (ucast (drop_bit 8 v))) (\<lambda>h.
             and_then (assign h b (j + 2) (ucast (drop_bit 16 v))) (\<lambda>h.
             and_then (assign h b (j + 3) (ucast (drop_bit 24 v))) (\<lambda>h.
               Inr (h, j + 4))))))
          (h, 0) = Inr s \<and> ?I 16 s"
  proof (rule for_loop_inv)
    show "?I 0 (h, 0)" by simp
  next
    fix k :: int and t :: "heap \<times> int"
    assume k: "0 \<le> k" "k < 16" and t: "?I k t"
    obtain h' j where tj: "t = (h', j)" by (cases t)
    let ?bs = "concat (map le_bytes (take (nat k) w))"
    from t tj have j: "j = k * 4" and h': "h' = store_at h (ptr b) ?bs" by auto
    have lbs: "length ?bs = 4 * nat k" using k assms by simp
    have tk: "take (nat (k + 1)) w = take (nat k) w @ [w ! nat k]"
      using k assms by (simp add: nat_add_distrib take_Suc_conv_app_nth)
    have a: "\<And>g v. assign g b (k * 4 + 0) v = Inr (store_at g (ptr b + 4 * nat k) [v])"
       "\<And>g v. assign g b (k * 4 + 1) v = Inr (store_at g (ptr b + 4 * nat k + 1) [v])"
       "\<And>g v. assign g b (k * 4 + 2) v = Inr (store_at g (ptr b + 4 * nat k + 2) [v])"
       "\<And>g v. assign g b (k * 4 + 3) v = Inr (store_at g (ptr b + 4 * nat k + 3) [v])"
      using k assms by (auto simp: assign_store_at nat_add_distrib nat_mult_distrib ac_simps)
    show "\<exists>t'. (case t of (h, j) \<Rightarrow> let v = w ! nat k in
             and_then (assign h b (j + 0) (ucast (drop_bit 0 v))) (\<lambda>h.
             and_then (assign h b (j + 1) (ucast (drop_bit 8 v))) (\<lambda>h.
             and_then (assign h b (j + 2) (ucast (drop_bit 16 v))) (\<lambda>h.
             and_then (assign h b (j + 3) (ucast (drop_bit 24 v))) (\<lambda>h.
               Inr (h, j + 4)))))) = Inr t' \<and> ?I (k + 1) t'"
      unfolding tj prod.case Let_def j h' a and_then_Inr store_at_4[OF lbs]
      by (simp add: tk le_bytes_eq)
  qed simp
  then show ?thesis unfolding salsa_store_def using assms by auto
qed

lemma all_less_16:
  "(\<forall>i<16. P (i::nat)) = (P 0 \<and> P 1 \<and> P 2 \<and> P 3 \<and> P 4 \<and> P 5 \<and> P 6 \<and> P 7 \<and> P 8 \<and> P 9 \<and>
     P 10 \<and> P 11 \<and> P 12 \<and> P 13 \<and> P 14 \<and> P 15)"
proof -
  have "(\<forall>i<16. P i) = (\<forall>i \<in> set [0..<16]. P i)" by auto
  also have "[0..<16] = [0, 1, 2, 3, 4, 5, 6, 7, 8, 9, 10, 11, 12, 13, 14, 15::nat]"
    by (simp add: upt_rec)
  finally show ?thesis by simp
qed

lemma upt_16: "[0..<16] = [0, 1, 2, 3, 4, 5, 6, 7, 8, 9, 10, 11, 12, 13, 14, 15::nat]"
  by (simp add: upt_rec)

lemma list_16_expand:
  assumes "length w = 16"
  shows "w = [w ! 0, w ! 1, w ! 2, w ! 3, w ! 4, w ! 5, w ! 6, w ! 7, w ! 8, w ! 9, w ! 10,
              w ! 11, w ! 12, w ! 13, w ! 14, w ! 15]"
proof -
  have "\<forall>i<16. w ! i = [w ! 0, w ! 1, w ! 2, w ! 3, w ! 4, w ! 5, w ! 6, w ! 7, w ! 8, w ! 9,
      w ! 10, w ! 11, w ! 12, w ! 13, w ! 14, w ! 15] ! i"
    unfolding all_less_16 by simp
  then have "\<And>i. i < length w \<Longrightarrow> w ! i = [w ! 0, w ! 1, w ! 2, w ! 3, w ! 4, w ! 5, w ! 6,
      w ! 7, w ! 8, w ! 9, w ! 10, w ! 11, w ! 12, w ! 13, w ! 14, w ! 15] ! i"
    unfolding assms by blast
  moreover have "length w = length [w ! 0, w ! 1, w ! 2, w ! 3, w ! 4, w ! 5, w ! 6,
      w ! 7, w ! 8, w ! 9, w ! 10, w ! 11, w ! 12, w ! 13, w ! 14, w ! 15]"
    by (simp add: assms)
  ultimately show ?thesis by (rule nth_equalityI[rotated])
qed

lemma words16_exhaust:
  "\<And>t::words16. \<exists>x0 x1 x2 x3 x4 x5 x6 x7 x8 x9 x10 x11 x12 x13 x14 x15.
     t = (x0, x1, x2, x3, x4, x5, x6, x7, x8, x9, x10, x11, x12, x13, x14, x15)"
  by (simp only: split_paired_all) blast

lemma map_16_add:
  "map (\<lambda>i. [w0, w1, w2, w3, w4, w5, w6, w7, w8, w9, w10, w11, w12, w13, w14, w15] ! i +
             [x0, x1, x2, x3, x4, x5, x6, x7, x8, x9, x10, x11, x12, x13, x14, x15] ! i) [0..<16]
   = [w0 + x0, w1 + x1, w2 + x2, w3 + x3, w4 + x4, w5 + x5, w6 + x6, w7 + x7, w8 + x8, w9 + x9,
      w10 + x10, w11 + x11, w12 + x12, w13 + x13, w14 + x14, w15 + (x15 :: uint32)]"
  unfolding upt_16 by simp

lemma Salsa20_8_bytes_at:
  "Salsa20_8 (bytes_at h p 64) =
     (let w = map (\<lambda>i. le_word (bytes_at h (p + 4 * i) 4)) [0..<16];
          x = (double_round_spec ^^ 4) w
      in concat (map le_bytes (map (\<lambda>i. w ! i + x ! i) [0..<16])))"
proof -
  have eq: "map (\<lambda>i. le_word (take 4 (drop (4 * i) (bytes_at h p 64))) :: uint32) [0..<16] =
        map (\<lambda>i. le_word (bytes_at h (p + 4 * i) 4)) [0..<16]"
    by (rule map_cong) (auto simp: min_def)
  show ?thesis
    unfolding Salsa20_8_def Let_def eq by (simp add: o_def add.commute)
qed

lemma salsa_correct:
  assumes "64 \<le> len b"
  shows "salsa h b = Inr (store_at h (ptr b) (Salsa20_8 (bytes_at h (ptr b) 64)))"
proof -
  define W where "W = map (\<lambda>i. le_word (bytes_at h (ptr b + 4 * i) 4) :: uint32) [0..<16]"
  have lW: "length W = 16" by (simp add: W_def)
  obtain w0 w1 w2 w3 w4 w5 w6 w7 w8 w9 w10 w11 w12 w13 w14 w15
    where W: "W = [w0, w1, w2, w3, w4, w5, w6, w7, w8, w9, w10, w11, w12, w13, w14, w15]"
    using list_16_expand[OF lW] by blast
  obtain x0 x1 x2 x3 x4 x5 x6 x7 x8 x9 x10 x11 x12 x13 x14 x15
    where T: "salsa_rounds 0 (w0, w1, w2, w3, w4, w5, w6, w7, w8, w9, w10, w11, w12, w13, w14, w15)
      = (x0, x1, x2, x3, x4, x5, x6, x7, x8, x9, x10, x11, x12, x13, x14, x15)"
    using words16_exhaust[of "salsa_rounds 0
      (w0, w1, w2, w3, w4, w5, w6, w7, w8, w9, w10, w11, w12, w13, w14, w15)"] by blast
  have X: "(double_round_spec ^^ 4) W =
      [x0, x1, x2, x3, x4, x5, x6, x7, x8, x9, x10, x11, x12, x13, x14, x15]"
    using list16_salsa_rounds[of "(w0, w1, w2, w3, w4, w5, w6, w7, w8, w9, w10, w11, w12, w13, w14, w15)"]
    unfolding T W by (simp add: list16_def)
  have "salsa h b = salsa_store h b
      [w0 + x0, w1 + x1, w2 + x2, w3 + x3, w4 + x4, w5 + x5, w6 + x6, w7 + x7, w8 + x8, w9 + x9,
       w10 + x10, w11 + x11, w12 + x12, w13 + x13, w14 + x14, w15 + x15]"
    unfolding salsa_def salsa_load_ok[OF assms] W_def[symmetric] and_then_Inr
    unfolding W Let_def nth16 T prod.case upd16 ..
  also have "\<dots> = Inr (store_at h (ptr b) (Salsa20_8 (bytes_at h (ptr b) 64)))"
    unfolding Salsa20_8_bytes_at W_def[symmetric] Let_def X
    unfolding W map_16_add
    by (rule salsa_store_ok[OF assms]) simp
  finally show ?thesis .
qed

subsection \<open>The variant with the \<open>rot\<close> helper\<close>

lemma Uint32_ok: "4 \<le> len s \<Longrightarrow> Uint32 h s = Inr (le_word (bytes_at h (ptr s) 4))"
  by (simp add: Uint32_def index_ok le32 bytes_at_4)

lemma PutUint32_ok: "4 \<le> len s \<Longrightarrow> PutUint32 h s v = Inr (store_at h (ptr s) (le_bytes v))"
  using store_at_4[of "[]" 0 h "ptr s"]
  by (simp add: PutUint32_def index_ok assign_store_at le_bytes_eq)

lemma rot_consts:
  "rot a 7 = rotl32 a 7" "rot a 9 = rotl32 a 9" "rot a 13 = rotl32 a 13" "rot a 18 = rotl32 a 18"
  using rot_rotl32[of 7 a] rot_rotl32[of 9 a] rot_rotl32[of 13 a] rot_rotl32[of 18 a] by simp_all

lemma double_round_rot_16:
  "double_round_rot [x0, x1, x2, x3, x4, x5, x6, x7, x8, x9, x10, x11, x12, x13, x14, x15] =
   double_round_spec [x0, x1, x2, x3, x4, x5, x6, x7, x8, x9, x10, x11, x12, x13, x14, x15]"
  by (simp only: double_round_rot_def double_round_spec_def row_step_def column_step_def
     quarter_round_def column_schedule_def row_schedule_def Let_def
     rot_consts prod.case fold.simps o_apply id_apply nth16 upd16 cong: let_weak_cong)

lemma length_quarter_round [simp]: "length (quarter_round q x) = length x"
  by (cases q) (simp add: quarter_round_def Let_def)

lemma length_double_round_spec [simp]: "length (double_round_spec x) = length x"
  by (simp add: double_round_spec_def row_step_def column_step_def row_schedule_def
      column_schedule_def)

lemma double_round_rot_refines:
  assumes "length x = 16"
  shows "double_round_rot x = double_round_spec x"
proof -
  obtain x0 x1 x2 x3 x4 x5 x6 x7 x8 x9 x10 x11 x12 x13 x14 x15
    where "x = [x0, x1, x2, x3, x4, x5, x6, x7, x8, x9, x10, x11, x12, x13, x14, x15]"
    using list_16_expand[OF assms] by blast
  then show ?thesis by (simp only: double_round_rot_16)
qed

lemma salsa_rounds_rot_4: "length x = 16 \<Longrightarrow> salsa_rounds_rot 0 x = (double_round_spec ^^ 4) x"
  by (simp add: salsa_rounds_rot.simps double_round_rot_refines eval_nat_numeral)

lemma salsa_rot_correct:
  assumes "64 \<le> len b"
  shows "salsa_rot h b = Inr (store_at h (ptr b) (Salsa20_8 (bytes_at h (ptr b) 64)))"
proof -
  let ?f = "\<lambda>i. le_word (bytes_at h (ptr b + 4 * i) 4) :: uint32"
  define W where "W = map ?f [0..<16]"
  define X where "X = (double_round_spec ^^ 4) W"
  define Z where "Z = map (\<lambda>i. W ! i + X ! i) [0..<16]"
  have lW: "length W = 16" by (simp add: W_def)
  have lZ: "length Z = 16" by (simp add: Z_def)
  have sl: "\<And>k. 0 \<le> k \<Longrightarrow> k < 16 \<Longrightarrow> slice_from b (k * 4) =
      Inr \<lparr>ptr = ptr b + 4 * nat k, len = len b - 4 * nat k, cap = cap b - 4 * nat k\<rparr>"
    using assms by (auto simp: slice_from_def nat_mult_distrib ac_simps)
  let ?I = "\<lambda>k w. length w = 16 \<and> (\<forall>m < nat k. w ! m = ?f m)"
  have "\<exists>w. for_loop 0 16
          (\<lambda>i w. and_then (slice_from b (i * 4)) (\<lambda>s.
                 and_then (Uint32 h s) (\<lambda>v. Inr (w[nat i := v]))))
          (replicate 16 0) = Inr w \<and> ?I 16 w"
  proof (rule for_loop_inv)
    show "?I 0 (replicate 16 0)" by simp
  next
    fix k :: int and t :: "uint32 list"
    assume k: "0 \<le> k" "k < 16" and t: "?I k t"
    have n: "nat (k + 1) = Suc (nat k)" "nat k < 16" using k by auto
    have u: "Uint32 h \<lparr>ptr = ptr b + 4 * nat k, len = len b - 4 * nat k, cap = cap b - 4 * nat k\<rparr>
        = Inr (?f (nat k))"
      using k assms by (subst Uint32_ok) auto
    show "\<exists>t'. and_then (slice_from b (k * 4)) (\<lambda>s.
                 and_then (Uint32 h s) (\<lambda>v. Inr (t[nat k := v]))) = Inr t' \<and> ?I (k + 1) t'"
      unfolding sl[OF k] and_then_Inr u n
      using t n(2) by (auto simp: nth_list_update less_Suc_eq)
  qed simp
  then obtain w where w: "for_loop 0 16
          (\<lambda>i w. and_then (slice_from b (i * 4)) (\<lambda>s.
                 and_then (Uint32 h s) (\<lambda>v. Inr (w[nat i := v]))))
          (replicate 16 0) = Inr w" "length w = 16" "\<forall>m < 16. w ! m = ?f m"
    by auto
  have wW: "w = W" unfolding W_def
    by (rule nth_equalityI) (use w in auto)
  let ?J = "\<lambda>k h'. h' = store_at h (ptr b) (concat (map le_bytes (take (nat k) Z)))"
  have "\<exists>h'. for_loop 0 16
            (\<lambda>i h. let v = W ! nat i in
               and_then (slice_from b (i * 4)) (\<lambda>s. PutUint32 h s (v + X ! nat i)))
            h = Inr h' \<and> ?J 16 h'"
  proof (rule for_loop_inv)
    show "?J 0 h" by simp
  next
    fix k :: int and t :: heap
    assume k: "0 \<le> k" "k < 16" and t: "?J k t"
    let ?bs = "concat (map le_bytes (take (nat k) Z))"
    have lbs: "length ?bs = 4 * nat k" using k lZ by simp
    have tk: "take (nat (k + 1)) Z = take (nat k) Z @ [W ! nat k + X ! nat k]"
      using k lZ by (simp add: nat_add_distrib take_Suc_conv_app_nth) (simp add: Z_def)
    have p: "\<And>g v. PutUint32 g \<lparr>ptr = ptr b + 4 * nat k, len = len b - 4 * nat k,
        cap = cap b - 4 * nat k\<rparr> v = Inr (store_at g (ptr b + 4 * nat k) (le_bytes v))"
      using k assms by (subst PutUint32_ok) auto
    show "\<exists>t'. (let v = W ! nat k in
               and_then (slice_from b (k * 4)) (\<lambda>s. PutUint32 t s (v + X ! nat k))) = Inr t' \<and>
               ?J (k + 1) t'"
      unfolding Let_def sl[OF k] and_then_Inr p t tk
      using store_at_append[of h "ptr b" ?bs "le_bytes (W ! nat k + X ! nat k)"]
      unfolding lbs by simp
  qed simp
  then have "for_loop 0 16
            (\<lambda>i h. let v = W ! nat i in
               and_then (slice_from b (i * 4)) (\<lambda>s. PutUint32 h s (v + X ! nat i)))
            h = Inr (store_at h (ptr b) (concat (map le_bytes Z)))"
    using lZ by auto
  moreover have "Salsa20_8 (bytes_at h (ptr b) 64) = concat (map le_bytes Z)"
    by (simp add: Salsa20_8_bytes_at Let_def Z_def X_def W_def)
  ultimately show ?thesis
    unfolding salsa_rot_def w(1) wW and_then_Inr Let_def
    by (simp add: salsa_rounds_rot_4 lW X_def)
qed

subsection \<open>The variant with the array argument\<close>

lemma double_round_arr_eq: "double_round_arr = double_round"
  by (simp only: double_round_arr_def double_round_def Let_def)

lemma salsa_rounds_arr_eq: "salsa_rounds_arr 0 t = salsa_rounds 0 t"
  by (simp add: salsa_rounds_arr.simps salsa_rounds.simps double_round_arr_eq)

lemma set_arr_first: "set_arr h b 0 v = store_at h b [v]"
  by (rule heap_eqI) (auto simp: set_arr_def mem_store_at fun_eq_iff)

lemma set_arr_next: "length bs = i \<Longrightarrow> set_arr (store_at h b bs) b i v = store_at h b (bs @ [v])"
  by (rule heap_eqI) (auto simp: set_arr_def mem_store_at fun_eq_iff nth_append)

lemma set_arr_64:
  "set_arr (set_arr (set_arr (set_arr (set_arr (set_arr (set_arr (set_arr (set_arr (set_arr
     (set_arr (set_arr (set_arr (set_arr (set_arr (set_arr (set_arr (set_arr (set_arr (set_arr
     (set_arr (set_arr (set_arr (set_arr (set_arr (set_arr (set_arr (set_arr (set_arr (set_arr
     (set_arr (set_arr (set_arr (set_arr (set_arr (set_arr (set_arr (set_arr (set_arr (set_arr
     (set_arr (set_arr (set_arr (set_arr (set_arr (set_arr (set_arr (set_arr (set_arr (set_arr
     (set_arr (set_arr (set_arr (set_arr (set_arr (set_arr (set_arr (set_arr (set_arr (set_arr
     (set_arr (set_arr (set_arr (set_arr h b 0 (ucast z0)) b 1 (ucast (drop_bit 8 z0))) b 2
     (ucast (drop_bit 16 z0))) b 3 (ucast (drop_bit 24 z0))) b 4 (ucast z1)) b 5 (ucast (drop_bit
     8 z1))) b 6 (ucast (drop_bit 16 z1))) b 7 (ucast (drop_bit 24 z1))) b 8 (ucast z2)) b 9
     (ucast (drop_bit 8 z2))) b 10 (ucast (drop_bit 16 z2))) b 11 (ucast (drop_bit 24 z2))) b 12
     (ucast z3)) b 13 (ucast (drop_bit 8 z3))) b 14 (ucast (drop_bit 16 z3))) b 15 (ucast
     (drop_bit 24 z3))) b 16 (ucast z4)) b 17 (ucast (drop_bit 8 z4))) b 18 (ucast (drop_bit 16
     z4))) b 19 (ucast (drop_bit 24 z4))) b 20 (ucast z5)) b 21 (ucast (drop_bit 8 z5))) b 22
     (ucast (drop_bit 16 z5))) b 23 (ucast (drop_bit 24 z5))) b 24 (ucast z6)) b 25 (ucast
     (drop_bit 8 z6))) b 26 (ucast (drop_bit 16 z6))) b 27 (ucast (drop_bit 24 z6))) b 28 (ucast
     z7)) b 29 (ucast (drop_bit 8 z7))) b 30 (ucast (drop_bit 16 z7))) b 31 (ucast (drop_bit 24
     z7))) b 32 (ucast z8)) b 33 (ucast (drop_bit 8 z8))) b 34 (ucast (drop_bit 16 z8))) b 35
     (ucast (drop_bit 24 z8))) b 36 (ucast z9)) b 37 (ucast (drop_bit 8 z9))) b 38 (ucast
     (drop_bit 16 z9))) b 39 (ucast (drop_bit 24 z9))) b 40 (ucast z10)) b 41 (ucast (drop_bit 8
     z10))) b 42 (ucast (drop_bit 16 z10))) b 43 (ucast (drop_bit 24 z10))) b 44 (ucast z11)) b
     45 (ucast (drop_bit 8 z11))) b 46 (ucast (drop_bit 16 z11))) b 47 (ucast (drop_bit 24 z11)))
     b 48 (ucast z12)) b 49 (ucast (drop_bit 8 z12))) b 50 (ucast (drop_bit 16 z12))) b 51 (ucast
     (drop_bit 24 z12))) b 52 (ucast z13)) b 53 (ucast (drop_bit 8 z13))) b 54 (ucast (drop_bit
     16 z13))) b 55 (ucast (drop_bit 24 z13))) b 56 (ucast z14)) b 57 (ucast (drop_bit 8 z14))) b
     58 (ucast (drop_bit 16 z14))) b 59 (ucast (drop_bit 24 z14))) b 60 (ucast z15)) b 61 (ucast
     (drop_bit 8 z15))) b 62 (ucast (drop_bit 16 z15))) b 63 (ucast (drop_bit 24 z15)) =
   store_at h b (concat (map le_bytes [z0, z1, z2, z3, z4, z5, z6, z7, z8, z9, z10, z11, z12, z13, z14, z15 :: uint32]))"

  by (simp add: set_arr_first set_arr_next le_bytes_eq)

lemma le32_mem:
  "ucast (mem h a) OR push_bit 8 (ucast (mem h (a + 1))) OR push_bit 16 (ucast (mem h (a + 2))) OR
   push_bit 24 (ucast (mem h (a + 3))) = (le_word (bytes_at h a 4) :: uint32)"
  by (simp add: bytes_at_4 le32)

lemma salsa_arr_correct: "salsa_arr h b = store_at h b (Salsa20_8 (bytes_at h b 64))"
proof -
  define W where "W = map (\<lambda>i. le_word (bytes_at h (b + 4 * i) 4) :: uint32) [0..<16]"
  have lW: "length W = 16" by (simp add: W_def)
  obtain w0 w1 w2 w3 w4 w5 w6 w7 w8 w9 w10 w11 w12 w13 w14 w15
    where W: "W = [w0, w1, w2, w3, w4, w5, w6, w7, w8, w9, w10, w11, w12, w13, w14, w15]"
    using list_16_expand[OF lW] by blast
  have Wn16:
    "le_word (bytes_at h (b + 0) 4) = w0"
    "le_word (bytes_at h (b + 4) 4) = w1"
    "le_word (bytes_at h (b + 8) 4) = w2"
    "le_word (bytes_at h (b + 12) 4) = w3"
    "le_word (bytes_at h (b + 16) 4) = w4"
    "le_word (bytes_at h (b + 20) 4) = w5"
    "le_word (bytes_at h (b + 24) 4) = w6"
    "le_word (bytes_at h (b + 28) 4) = w7"
    "le_word (bytes_at h (b + 32) 4) = w8"
    "le_word (bytes_at h (b + 36) 4) = w9"
    "le_word (bytes_at h (b + 40) 4) = w10"
    "le_word (bytes_at h (b + 44) 4) = w11"
    "le_word (bytes_at h (b + 48) 4) = w12"
    "le_word (bytes_at h (b + 52) 4) = w13"
    "le_word (bytes_at h (b + 56) 4) = w14"
    "le_word (bytes_at h (b + 60) 4) = w15"
    using arg_cong[OF W, of "\<lambda>l. l ! 0"] arg_cong[OF W, of "\<lambda>l. l ! 1"]
      arg_cong[OF W, of "\<lambda>l. l ! 2"] arg_cong[OF W, of "\<lambda>l. l ! 3"]
      arg_cong[OF W, of "\<lambda>l. l ! 4"] arg_cong[OF W, of "\<lambda>l. l ! 5"]
      arg_cong[OF W, of "\<lambda>l. l ! 6"] arg_cong[OF W, of "\<lambda>l. l ! 7"]
      arg_cong[OF W, of "\<lambda>l. l ! 8"] arg_cong[OF W, of "\<lambda>l. l ! 9"]
      arg_cong[OF W, of "\<lambda>l. l ! 10"] arg_cong[OF W, of "\<lambda>l. l ! 11"]
      arg_cong[OF W, of "\<lambda>l. l ! 12"] arg_cong[OF W, of "\<lambda>l. l ! 13"]
      arg_cong[OF W, of "\<lambda>l. l ! 14"] arg_cong[OF W, of "\<lambda>l. l ! 15"]
    by (simp_all add: W_def)
  have wk:
    "ucast (mem h (b + 0)) OR push_bit 8 (ucast (mem h (b + 1))) OR
     push_bit 16 (ucast (mem h (b + 2))) OR push_bit 24 (ucast (mem h (b + 3))) = w0"
    "ucast (mem h (b + 4)) OR push_bit 8 (ucast (mem h (b + 5))) OR
     push_bit 16 (ucast (mem h (b + 6))) OR push_bit 24 (ucast (mem h (b + 7))) = w1"
    "ucast (mem h (b + 8)) OR push_bit 8 (ucast (mem h (b + 9))) OR
     push_bit 16 (ucast (mem h (b + 10))) OR push_bit 24 (ucast (mem h (b + 11))) = w2"
    "ucast (mem h (b + 12)) OR push_bit 8 (ucast (mem h (b + 13))) OR
     push_bit 16 (ucast (mem h (b + 14))) OR push_bit 24 (ucast (mem h (b + 15))) = w3"
    "ucast (mem h (b + 16)) OR push_bit 8 (ucast (mem h (b + 17))) OR
     push_bit 16 (ucast (mem h (b + 18))) OR push_bit 24 (ucast (mem h (b + 19))) = w4"
    "ucast (mem h (b + 20)) OR push_bit 8 (ucast (mem h (b + 21))) OR
     push_bit 16 (ucast (mem h (b + 22))) OR push_bit 24 (ucast (mem h (b + 23))) = w5"
    "ucast (mem h (b + 24)) OR push_bit 8 (ucast (mem h (b + 25))) OR
     push_bit 16 (ucast (mem h (b + 26))) OR push_bit 24 (ucast (mem h (b + 27))) = w6"
    "ucast (mem h (b + 28)) OR push_bit 8 (ucast (mem h (b + 29))) OR
     push_bit 16 (ucast (mem h (b + 30))) OR push_bit 24 (ucast (mem h (b + 31))) = w7"
    "ucast (mem h (b + 32)) OR push_bit 8 (ucast (mem h (b + 33))) OR
     push_bit 16 (ucast (mem h (b + 34))) OR push_bit 24 (ucast (mem h (b + 35))) = w8"
    "ucast (mem h (b + 36)) OR push_bit 8 (ucast (mem h (b + 37))) OR
     push_bit 16 (ucast (mem h (b + 38))) OR push_bit 24 (ucast (mem h (b + 39))) = w9"
    "ucast (mem h (b + 40)) OR push_bit 8 (ucast (mem h (b + 41))) OR
     push_bit 16 (ucast (mem h (b + 42))) OR push_bit 24 (ucast (mem h (b + 43))) = w10"
    "ucast (mem h (b + 44)) OR push_bit 8 (ucast (mem h (b + 45))) OR
     push_bit 16 (ucast (mem h (b + 46))) OR push_bit 24 (ucast (mem h (b + 47))) = w11"
    "ucast (mem h (b + 48)) OR push_bit 8 (ucast (mem h (b + 49))) OR
     push_bit 16 (ucast (mem h (b + 50))) OR push_bit 24 (ucast (mem h (b + 51))) = w12"
    "ucast (mem h (b + 52)) OR push_bit 8 (ucast (mem h (b + 53))) OR
     push_bit 16 (ucast (mem h (b + 54))) OR push_bit 24 (ucast (mem h (b + 55))) = w13"
    "ucast (mem h (b + 56)) OR push_bit 8 (ucast (mem h (b + 57))) OR
     push_bit 16 (ucast (mem h (b + 58))) OR push_bit 24 (ucast (mem h (b + 59))) = w14"
    "ucast (mem h (b + 60)) OR push_bit 8 (ucast (mem h (b + 61))) OR
     push_bit 16 (ucast (mem h (b + 62))) OR push_bit 24 (ucast (mem h (b + 63))) = w15"
    using le32_mem[of h "b + 0"] le32_mem[of h "b + 4"] le32_mem[of h "b + 8"]
      le32_mem[of h "b + 12"] le32_mem[of h "b + 16"] le32_mem[of h "b + 20"]
      le32_mem[of h "b + 24"] le32_mem[of h "b + 28"] le32_mem[of h "b + 32"]
      le32_mem[of h "b + 36"] le32_mem[of h "b + 40"] le32_mem[of h "b + 44"]
      le32_mem[of h "b + 48"] le32_mem[of h "b + 52"] le32_mem[of h "b + 56"]
      le32_mem[of h "b + 60"]
    unfolding Wn16 by (simp_all only: add.assoc add_0 numeral_plus_numeral add_num_simps one_plus_numeral numeral_plus_one)
  obtain x0 x1 x2 x3 x4 x5 x6 x7 x8 x9 x10 x11 x12 x13 x14 x15
    where T: "salsa_rounds 0 (w0, w1, w2, w3, w4, w5, w6, w7, w8, w9, w10, w11, w12, w13, w14, w15)
      = (x0, x1, x2, x3, x4, x5, x6, x7, x8, x9, x10, x11, x12, x13, x14, x15)"
    using words16_exhaust[of "salsa_rounds 0
      (w0, w1, w2, w3, w4, w5, w6, w7, w8, w9, w10, w11, w12, w13, w14, w15)"] by blast
  have X: "(double_round_spec ^^ 4) W =
      [x0, x1, x2, x3, x4, x5, x6, x7, x8, x9, x10, x11, x12, x13, x14, x15]"
    using list16_salsa_rounds[of "(w0, w1, w2, w3, w4, w5, w6, w7, w8, w9, w10, w11, w12, w13, w14, w15)"]
    unfolding T W by (simp add: list16_def)
  show ?thesis
    unfolding salsa_arr_def wk Let_def salsa_rounds_arr_eq T prod.case set_arr_64
      Salsa20_8_bytes_at W_def[symmetric] X
    unfolding W map_16_add
    by (simp add: add.commute)
qed

lemma length_Salsa20_8 [simp]: "length (Salsa20_8 x) = 64"
  by (simp add: Salsa20_8_def Let_def length_concat o_def sum_list_triv)

section \<open>Lemmas: blockMix and smix\<close>

subsection \<open>Slices, blockCopy, blockXOR\<close>

lemma slice_from_ok:
  "0 \<le> a \<Longrightarrow> nat a \<le> len s \<Longrightarrow>
   slice_from s a = Inr \<lparr>ptr = ptr s + nat a, len = len s - nat a, cap = cap s - nat a\<rparr>"
  by (auto simp: slice_from_def)

lemma slice_to_ok: "0 \<le> n \<Longrightarrow> nat n \<le> cap s \<Longrightarrow> slice_to s n = Inr (s\<lparr>len := nat n\<rparr>)"
  by (auto simp: slice_to_def)

lemma make_ok:
  "0 \<le> n \<Longrightarrow> make h n =
     Inr (store_at (h\<lparr>brk := brk h + nat n\<rparr>) (brk h) (replicate (nat n) 0),
          \<lparr>ptr = brk h, len = nat n, cap = nat n\<rparr>)"
  by (auto simp: make_def store_at_def fun_eq_iff intro!: heap_eqI)

lemma blockCopy_ok:
  assumes "0 \<le> n" "nat n \<le> cap src" "nat n \<le> len dst"
  shows "blockCopy h dst src n = Inr (store_at h (ptr dst) (bytes_at h (ptr src) (nat n)))"
  using assms by (simp add: blockCopy_def slice_to_ok copy_store_at min_def)

lemma xor_bytes_snoc:
  "length as = length bs \<Longrightarrow> xor_bytes (as @ [a]) (bs @ [b]) = xor_bytes as bs @ [a XOR b]"
  by (simp add: xor_bytes_def)

lemma length_xor_bytes [simp]: "length (xor_bytes as bs) = min (length as) (length bs)"
  by (simp add: xor_bytes_def)

lemma blockXOR_ok:
  assumes n: "0 \<le> n" "nat n \<le> cap src" "nat n \<le> len dst"
    and disj: "ptr dst + nat n \<le> ptr src \<or> ptr src + nat n \<le> ptr dst"
  shows "blockXOR h dst src n =
     Inr (store_at h (ptr dst)
            (xor_bytes (bytes_at h (ptr dst) (nat n)) (bytes_at h (ptr src) (nat n))))"
proof -
  let ?s = "src\<lparr>len := nat n\<rparr>"
  let ?I = "\<lambda>k g. g = store_at h (ptr dst)
      (xor_bytes (bytes_at h (ptr dst) (nat k)) (bytes_at h (ptr src) (nat k)))"
  have "\<exists>g. for_loop 0 (int (len ?s))
         (\<lambda>i h. and_then (index h ?s i) (\<lambda>v.
                and_then (index h dst i) (\<lambda>d. assign h dst i (d XOR v))))
         h = Inr g \<and> ?I (int (len ?s)) g"
  proof (rule for_loop_inv)
    show "?I 0 h" by (simp add: xor_bytes_def)
  next
    fix k :: int and g :: heap
    assume k: "0 \<le> k" "k < int (len ?s)" and g: "?I k g"
    let ?bs = "xor_bytes (bytes_at h (ptr dst) (nat k)) (bytes_at h (ptr src) (nat k))"
    have kn: "nat k < nat n" using k n by (auto split: if_splits)
    have lbs: "length ?bs = nat k" by simp
    have out: "\<not> (ptr dst \<le> ptr src + nat k \<and> ptr src + nat k < ptr dst + nat k)"
      using disj kn by linarith
    have v: "index g ?s k = Inr (mem h (ptr src + nat k))"
      using k kn out unfolding g by (auto simp: index_ok mem_store_at)
    have d: "index g dst k = Inr (mem h (ptr dst + nat k))"
      using k kn n unfolding g by (simp add: index_ok mem_store_at)
    have a: "\<And>c. assign g dst k c = Inr (store_at h (ptr dst) (?bs @ [c]))"
      using k kn n store_at_append[of h "ptr dst" ?bs] unfolding g
      by (simp add: assign_store_at)
    have nk: "nat (k + 1) = Suc (nat k)" using k by simp
    show "\<exists>t'. and_then (index g ?s k) (\<lambda>v.
                and_then (index g dst k) (\<lambda>d. assign g dst k (d XOR v))) = Inr t' \<and> ?I (k + 1) t'"
      unfolding v d a and_then_Inr nk bytes_at_Suc
      by (simp add: xor_bytes_snoc)
  qed simp
  then show ?thesis
    using n by (simp add: blockXOR_def slice_to_ok)
qed

lemma blockCopy_64:
  "64 \<le> cap src \<Longrightarrow> 64 \<le> len dst \<Longrightarrow>
   blockCopy h dst src 64 = Inr (store_at h (ptr dst) (bytes_at h (ptr src) 64))"
  using blockCopy_ok[of 64 src dst h] by simp

lemma copy_blocks:
  fixes fb fy :: "int \<Rightarrow> int"
  assumes fb: "\<And>i. 0 \<le> i \<Longrightarrow> i < m \<Longrightarrow> 0 \<le> fb i \<and> nat (fb i) + 64 \<le> len b"
    and fy: "\<And>i. 0 \<le> i \<Longrightarrow> i < m \<Longrightarrow>
               0 \<le> fy i \<and> nat (fy i) + 64 \<le> len y \<and> nat (fy i) + 64 \<le> cap y"
    and mono: "\<And>i j. 0 \<le> i \<Longrightarrow> i < j \<Longrightarrow> j < m \<Longrightarrow> nat (fb i) + 64 \<le> nat (fb j)"
    and disj: "\<And>i j. 0 \<le> i \<Longrightarrow> i < m \<Longrightarrow> 0 \<le> j \<Longrightarrow> j < m \<Longrightarrow>
               ptr b + nat (fb i) + 64 \<le> ptr y + nat (fy j) \<or>
               ptr y + nat (fy j) + 64 \<le> ptr b + nat (fb i)"
    and m: "0 \<le> m"
  shows "\<exists>g'. for_loop 0 m
           (\<lambda>i h. and_then (slice_from b (fb i)) (\<lambda>d.
                  and_then (slice_from y (fy i)) (\<lambda>s. blockCopy h d s 64)))
           g = Inr g' \<and> brk g' = brk g \<and>
         (\<forall>i. 0 \<le> i \<and> i < m \<longrightarrow>
            bytes_at g' (ptr b + nat (fb i)) 64 = bytes_at g (ptr y + nat (fy i)) 64) \<and>
         (\<forall>a. (\<forall>i. 0 \<le> i \<and> i < m \<longrightarrow>
                 \<not> (ptr b + nat (fb i) \<le> a \<and> a < ptr b + nat (fb i) + 64)) \<longrightarrow>
              mem g' a = mem g a)"
proof -
  let ?I = "\<lambda>k t. brk t = brk g \<and>
         (\<forall>i. 0 \<le> i \<and> i < k \<longrightarrow>
            bytes_at t (ptr b + nat (fb i)) 64 = bytes_at g (ptr y + nat (fy i)) 64) \<and>
         (\<forall>a. (\<forall>i. 0 \<le> i \<and> i < k \<longrightarrow>
                 \<not> (ptr b + nat (fb i) \<le> a \<and> a < ptr b + nat (fb i) + 64)) \<longrightarrow>
              mem t a = mem g a)"
  show ?thesis
  proof (rule for_loop_inv[where I = ?I])
    show "?I 0 g" by auto
  next
    fix k :: int and t :: heap
    assume k: "0 \<le> k" "k < m" and t: "?I k t"
    let ?d = "ptr b + nat (fb k)" and ?s = "ptr y + nat (fy k)"
    have src: "bytes_at t ?s 64 = bytes_at g ?s 64"
    proof (rule bytes_at_cong)
      fix a assume a: "?s \<le> a" "a < ?s + 64"
      have "\<forall>i. 0 \<le> i \<and> i < k \<longrightarrow> \<not> (ptr b + nat (fb i) \<le> a \<and> a < ptr b + nat (fb i) + 64)"
      proof (intro allI impI)
        fix i assume "0 \<le> i \<and> i < k"
        then have "ptr b + nat (fb i) + 64 \<le> ?s \<or> ?s + 64 \<le> ptr b + nat (fb i)"
          using disj[of i k] k by simp
        then show "\<not> (ptr b + nat (fb i) \<le> a \<and> a < ptr b + nat (fb i) + 64)"
          using a by linarith
      qed
      then show "mem t a = mem g a" using t by blast
    qed
    have step: "and_then (slice_from b (fb k)) (\<lambda>d.
                  and_then (slice_from y (fy k)) (\<lambda>s. blockCopy t d s 64)) =
          Inr (store_at t ?d (bytes_at g ?s 64))"
    proof -
      have c: "64 \<le> cap y - nat (fy k)" "64 \<le> len b - nat (fb k)"
        "nat (fy k) \<le> len y" "nat (fb k) \<le> len b" "0 \<le> fb k" "0 \<le> fy k"
        using fb[OF k] fy[OF k] by linarith+
      show ?thesis by (simp add: slice_from_ok blockCopy_64 src c)
    qed
    have "?I (k + 1) (store_at t ?d (bytes_at g ?s 64))"
    proof (intro conjI allI impI)
      show "brk (store_at t ?d (bytes_at g ?s 64)) = brk g" using t by simp
    next
      fix i assume i: "0 \<le> i \<and> i < k + 1"
      show "bytes_at (store_at t ?d (bytes_at g ?s 64)) (ptr b + nat (fb i)) 64 =
            bytes_at g (ptr y + nat (fy i)) 64"
      proof (cases "i = k")
        case True
        then show ?thesis by simp
      next
        case False
        then have ik: "0 \<le> i" "i < k" using i by auto
        have "nat (fb i) + 64 \<le> nat (fb k)" using mono[OF ik(1) ik(2) k(2)] .
        then have "bytes_at (store_at t ?d (bytes_at g ?s 64)) (ptr b + nat (fb i)) 64 =
              bytes_at t (ptr b + nat (fb i)) 64"
          by (intro bytes_at_store_at_outside) simp
        then show ?thesis using t ik by simp
      qed
    next
      fix a
      assume a: "\<forall>i. 0 \<le> i \<and> i < k + 1 \<longrightarrow>
                 \<not> (ptr b + nat (fb i) \<le> a \<and> a < ptr b + nat (fb i) + 64)"
      then have "\<not> (?d \<le> a \<and> a < ?d + 64)" using k by simp
      then have "mem (store_at t ?d (bytes_at g ?s 64)) a = mem t a"
        by (auto simp: mem_store_at)
      moreover have "mem t a = mem g a" using t a by simp
      ultimately show "mem (store_at t ?d (bytes_at g ?s 64)) a = mem g a" by simp
    qed
    then show "\<exists>t'. and_then (slice_from b (fb k)) (\<lambda>d.
                  and_then (slice_from y (fy k)) (\<lambda>s. blockCopy t d s 64)) = Inr t' \<and>
                ?I (k + 1) t'"
      unfolding step by blast
  qed (rule m)
qed

subsection \<open>BlockMix of the specification, step by step\<close>

definition bm_step ::
  "byte list \<Rightarrow> nat \<Rightarrow> byte list \<times> byte list list \<Rightarrow> byte list \<times> byte list list" where
  "bm_step B = (\<lambda>i (X, Y). let X = Salsa20_8 (xor_bytes X (sub_block B i)) in (X, Y[i := X]))"

definition bm_state :: "nat \<Rightarrow> byte list \<Rightarrow> nat \<Rightarrow> byte list \<times> byte list list" where
  "bm_state r B k = fold (bm_step B) [0..<k] (sub_block B (2 * r - 1), replicate (2 * r) [])"

lemma bm_state_0: "bm_state r B 0 = (sub_block B (2 * r - 1), replicate (2 * r) [])"
  by (simp add: bm_state_def)

lemma bm_state_Suc: "bm_state r B (Suc k) = bm_step B k (bm_state r B k)"
  by (simp add: bm_state_def)

lemma length_snd_bm_state [simp]: "length (snd (bm_state r B k)) = 2 * r"
  by (induction k) (auto simp: bm_state_0 bm_state_Suc bm_step_def Let_def split: prod.split)

lemma BlockMix_alt:
  "BlockMix r B =
     (let Y = snd (bm_state r B (2 * r))
      in concat (map (\<lambda>i. Y ! (2 * i)) [0..<r]) @ concat (map (\<lambda>i. Y ! (2 * i + 1)) [0..<r]))"
  by (simp add: BlockMix_def bm_state_def bm_step_def Let_def split: prod.split)

lemma bytes_at_blocks:
  "(\<forall>j<m. bytes_at g (a + 64 * j) 64 = f j) \<Longrightarrow> bytes_at g a (64 * m) = concat (map f [0..<m])"
proof (induction m)
  case 0
  then show ?case by simp
next
  case (Suc m)
  have "bytes_at g a (64 * Suc m) = bytes_at g a (64 * m) @ bytes_at g (a + 64 * m) 64"
    using bytes_at_add[of g a "64 * m" 64] by (simp add: add.commute)
  with Suc show ?case by simp
qed

lemma sub_block_bytes_at:
  "k * 64 + 64 \<le> n \<Longrightarrow> sub_block (bytes_at h a n) k = bytes_at h (a + 64 * k) 64"
  by (auto simp: sub_block_def min_def mult.commute)

subsection \<open>The first loop of blockMix\<close>

lemma bm_loop1:
  fixes body :: "int \<Rightarrow> heap \<Rightarrow> heap go"
  assumes step: "\<And>k g. 0 \<le> k \<Longrightarrow> k < 2 * r \<Longrightarrow>
      body k g = Inr (store_at (store_at g xa
          (Salsa20_8 (xor_bytes (bytes_at g xa 64) (bytes_at g (pb + 64 * nat k) 64))))
        (py + 64 * nat k)
          (Salsa20_8 (xor_bytes (bytes_at g xa 64) (bytes_at g (pb + 64 * nat k) 64))))"
    and r: "1 \<le> r"
    and below: "pb + 128 * nat r \<le> xa" "py + 128 * nat r \<le> xa"
    and disj: "pb + 128 * nat r \<le> py \<or> py + 128 * nat r \<le> pb"
    and B: "B = bytes_at g0 pb (128 * nat r)"
    and X0: "bytes_at g0 xa 64 = sub_block B (2 * nat r - 1)"
  shows "\<exists>g'. for_loop 0 (2 * r) body g0 = Inr g' \<and> brk g' = brk g0 \<and>
      (\<forall>a. a < xa \<and> \<not> (py \<le> a \<and> a < py + 128 * nat r) \<longrightarrow> mem g' a = mem g0 a) \<and>
      (\<forall>j < 2 * nat r. bytes_at g' (py + 64 * j) 64 = snd (bm_state (nat r) B (2 * nat r)) ! j)"
proof -
  let ?R = "nat r"
  let ?I = "\<lambda>k g. brk g = brk g0 \<and>
      (\<forall>a. a < xa \<and> \<not> (py \<le> a \<and> a < py + 128 * ?R) \<longrightarrow> mem g a = mem g0 a) \<and>
      bytes_at g xa 64 = fst (bm_state ?R B (nat k)) \<and>
      (\<forall>j < nat k. bytes_at g (py + 64 * j) 64 = snd (bm_state ?R B (nat k)) ! j)"
  have "\<exists>g'. for_loop 0 (2 * r) body g0 = Inr g' \<and> ?I (2 * r) g'"
  proof (rule for_loop_inv[where I = ?I])
    show "?I 0 g0" using X0 by (simp add: bm_state_0)
  next
    fix k :: int and g :: heap
    assume k: "0 \<le> k" "k < 2 * r" and g: "?I k g"
    let ?K = "nat k"
    have K: "?K < 2 * ?R" using k by linarith
    obtain X Y where XY: "bm_state ?R B ?K = (X, Y)" by (cases "bm_state ?R B ?K")
    have lY: "length Y = 2 * ?R" using length_snd_bm_state[of ?R B ?K] XY by simp
    have bk: "bytes_at g (pb + 64 * ?K) 64 = sub_block B ?K"
    proof -
      have "bytes_at g (pb + 64 * ?K) 64 = bytes_at g0 (pb + 64 * ?K) 64"
      proof (rule bytes_at_cong)
        fix a assume "pb + 64 * ?K \<le> a" "a < pb + 64 * ?K + 64"
        then have "a < xa \<and> \<not> (py \<le> a \<and> a < py + 128 * ?R)"
          using K below disj by linarith
        then show "mem g a = mem g0 a" using g by blast
      qed
      also have "\<dots> = sub_block B ?K"
        unfolding B using K by (subst sub_block_bytes_at) simp_all
      finally show ?thesis .
    qed
    define X' where "X' = Salsa20_8 (xor_bytes X (sub_block B ?K))"
    have lX': "length X' = 64" by (simp add: X'_def)
    have next_state: "bm_state ?R B (nat (k + 1)) = (X', Y[?K := X'])"
      using k by (simp add: nat_add_distrib bm_state_Suc XY bm_step_def X'_def Let_def)
    have gx: "bytes_at g xa 64 = X" using g XY by simp
    let ?g' = "store_at (store_at g xa X') (py + 64 * ?K) X'"
    have body: "body k g = Inr ?g'"
      unfolding step[OF k] gx bk X'_def ..
    have "?I (k + 1) ?g'"
      unfolding next_state fst_conv snd_conv
    proof (intro conjI allI impI)
      show "brk ?g' = brk g0" using g by simp
    next
      fix a assume a: "a < xa \<and> \<not> (py \<le> a \<and> a < py + 128 * ?R)"
      then have "\<not> (py + 64 * ?K \<le> a \<and> a < py + 64 * ?K + 64)" using K by linarith
      with a have "mem ?g' a = mem g a" by (auto simp: mem_store_at lX')
      with a g show "mem ?g' a = mem g0 a" by simp
    next
      have "xa + 64 \<le> py + 64 * ?K \<or> py + 64 * ?K + 64 \<le> xa" using K below by linarith
      then have "bytes_at ?g' xa 64 = bytes_at (store_at g xa X') xa 64"
        by (intro bytes_at_store_at_outside) (simp add: lX')
      then show "bytes_at ?g' xa 64 = X'" by (simp add: lX')
    next
      fix j assume j: "j < nat (k + 1)"
      show "bytes_at ?g' (py + 64 * j) 64 = Y[?K := X'] ! j"
      proof (cases "j = ?K")
        case True
        then show ?thesis using K lY by (simp add: lX')
      next
        case False
        then have jk: "j < ?K" using j k by linarith
        have "bytes_at ?g' (py + 64 * j) 64 = bytes_at (store_at g xa X') (py + 64 * j) 64"
          using jk by (intro bytes_at_store_at_outside) (simp add: lX')
        also have "\<dots> = bytes_at g (py + 64 * j) 64"
          using jk K below by (intro bytes_at_store_at_outside) (simp add: lX')
        also have "\<dots> = Y ! j" using g jk XY by simp
        finally show ?thesis using False by simp
      qed
    qed
    with body show "\<exists>t'. body k g = Inr t' \<and> ?I (k + 1) t'" by blast
  qed (use r in simp)
  then show ?thesis using r by (auto simp: nat_mult_distrib)
qed

subsection \<open>What blockMix needs and what it guarantees\<close>

definition blockMix_pre :: "heap \<Rightarrow> slice \<Rightarrow> slice \<Rightarrow> int \<Rightarrow> bool" where
  "blockMix_pre h b y r \<longleftrightarrow>
     1 \<le> r \<and> 128 * nat r \<le> len b \<and> len b \<le> cap b \<and> 128 * nat r \<le> len y \<and> len y \<le> cap y \<and>
     ptr b + 128 * nat r \<le> brk h \<and> ptr y + 128 * nat r \<le> brk h \<and>
     (ptr b + 128 * nat r \<le> ptr y \<or> ptr y + 128 * nat r \<le> ptr b)"

definition blockMix_post :: "heap \<Rightarrow> slice \<Rightarrow> slice \<Rightarrow> nat \<Rightarrow> heap \<Rightarrow> bool" where
  "blockMix_post h b y R h' \<longleftrightarrow>
     bytes_at h' (ptr b) (128 * R) = BlockMix R (bytes_at h (ptr b) (128 * R)) \<and>
     brk h \<le> brk h' \<and>
     (\<forall>a. a < brk h \<and> \<not> (ptr b \<le> a \<and> a < ptr b + 128 * R) \<and>
          \<not> (ptr y \<le> a \<and> a < ptr y + 128 * R) \<longrightarrow> mem h' a = mem h a)"

definition blockMix_ok :: "(heap \<Rightarrow> slice \<Rightarrow> slice \<Rightarrow> int \<Rightarrow> heap go) \<Rightarrow> bool" where
  "blockMix_ok F \<longleftrightarrow>
     (\<forall>h b y r. blockMix_pre h b y r \<longrightarrow>
        (\<exists>h'. F h b y r = Inr h' \<and> blockMix_post h b y (nat r) h'))"

lemma blockMix_tail:
  fixes body :: "int \<Rightarrow> heap \<Rightarrow> heap go"
  assumes pre: "blockMix_pre h b y r"
    and step: "\<And>k g. 0 \<le> k \<Longrightarrow> k < 2 * r \<Longrightarrow>
      body k g = Inr (store_at (store_at g (brk h)
          (Salsa20_8 (xor_bytes (bytes_at g (brk h) 64) (bytes_at g (ptr b + 64 * nat k) 64))))
        (ptr y + 64 * nat k)
          (Salsa20_8 (xor_bytes (bytes_at g (brk h) 64) (bytes_at g (ptr b + 64 * nat k) 64))))"
    and g0: "brk g0 = brk h + 64" "\<forall>a<brk h. mem g0 a = mem h a"
      "bytes_at g0 (brk h) 64 = sub_block (bytes_at h (ptr b) (128 * nat r)) (2 * nat r - 1)"
  shows "\<exists>h'. and_then (for_loop 0 (2 * r) body g0) (\<lambda>h.
     and_then
       (for_loop 0 r
          (\<lambda>i h. and_then (slice_from b (i * 64)) (\<lambda>d.
                 and_then (slice_from y ((i * 2) * 64)) (\<lambda>s.
                   blockCopy h d s 64)))
          h) (\<lambda>h.
     for_loop 0 r
       (\<lambda>i h. and_then (slice_from b ((i + r) * 64)) (\<lambda>d.
              and_then (slice_from y ((i * 2 + 1) * 64)) (\<lambda>s.
                blockCopy h d s 64)))
       h)) = Inr h' \<and> blockMix_post h b y (nat r) h'"
proof -
  let ?R = "nat r" and ?pb = "ptr b" and ?py = "ptr y" and ?xa = "brk h"
  define B where "B = bytes_at h ?pb (128 * ?R)"
  define Y where "Y = snd (bm_state ?R B (2 * ?R))"
  from pre have r: "1 \<le> r" and lb: "128 * ?R \<le> len b" "len b \<le> cap b"
    and ly: "128 * ?R \<le> len y" "len y \<le> cap y"
    and below: "?pb + 128 * ?R \<le> ?xa" "?py + 128 * ?R \<le> ?xa"
    and disj: "?pb + 128 * ?R \<le> ?py \<or> ?py + 128 * ?R \<le> ?pb"
    by (auto simp: blockMix_pre_def)
  have Bg0: "B = bytes_at g0 ?pb (128 * ?R)"
    unfolding B_def by (rule bytes_at_cong) (use g0(2) below in auto)
  obtain g1 where g1: "for_loop 0 (2 * r) body g0 = Inr g1" "brk g1 = brk g0"
      "\<forall>a. a < ?xa \<and> \<not> (?py \<le> a \<and> a < ?py + 128 * ?R) \<longrightarrow> mem g1 a = mem g0 a"
      "\<forall>j < 2 * ?R. bytes_at g1 (?py + 64 * j) 64 = Y ! j"
    using bm_loop1[of r body ?xa ?pb ?py B g0, OF step r below disj Bg0] g0(3)
    unfolding B_def Y_def by blast
  \<comment> \<open>second loop: even-indexed blocks to the first half\<close>
  have "\<exists>g'. for_loop 0 r
           (\<lambda>i h. and_then (slice_from b (i * 64)) (\<lambda>d.
                  and_then (slice_from y ((i * 2) * 64)) (\<lambda>s. blockCopy h d s 64)))
           g1 = Inr g' \<and> brk g' = brk g1 \<and>
         (\<forall>i. 0 \<le> i \<and> i < r \<longrightarrow>
            bytes_at g' (?pb + nat (i * 64)) 64 = bytes_at g1 (?py + nat ((i * 2) * 64)) 64) \<and>
         (\<forall>a. (\<forall>i. 0 \<le> i \<and> i < r \<longrightarrow>
                 \<not> (?pb + nat (i * 64) \<le> a \<and> a < ?pb + nat (i * 64) + 64)) \<longrightarrow>
              mem g' a = mem g1 a)"
  proof (rule copy_blocks)
    fix i :: int assume "0 \<le> i" "i < r"
    then show "0 \<le> i * 64 \<and> nat (i * 64) + 64 \<le> len b"
      and "0 \<le> (i * 2) * 64 \<and> nat ((i * 2) * 64) + 64 \<le> len y \<and> nat ((i * 2) * 64) + 64 \<le> cap y"
      using lb ly by (auto simp: nat_mult_distrib)
  next
    fix i j :: int assume "0 \<le> i" "i < j" "j < r"
    then show "nat (i * 64) + 64 \<le> nat (j * 64)" by (auto simp: nat_mult_distrib)
  next
    fix i j :: int assume "0 \<le> i" "i < r" "0 \<le> j" "j < r"
    then show "?pb + nat (i * 64) + 64 \<le> ?py + nat ((j * 2) * 64) \<or>
               ?py + nat ((j * 2) * 64) + 64 \<le> ?pb + nat (i * 64)"
      using disj by (auto simp: nat_mult_distrib)
  qed (use r in simp)
  then obtain g2 where g2: "for_loop 0 r
           (\<lambda>i h. and_then (slice_from b (i * 64)) (\<lambda>d.
                  and_then (slice_from y ((i * 2) * 64)) (\<lambda>s. blockCopy h d s 64)))
           g1 = Inr g2" "brk g2 = brk g1"
      "\<forall>i. 0 \<le> i \<and> i < r \<longrightarrow>
            bytes_at g2 (?pb + nat (i * 64)) 64 = bytes_at g1 (?py + nat ((i * 2) * 64)) 64"
      "\<forall>a. (\<forall>i. 0 \<le> i \<and> i < r \<longrightarrow>
                 \<not> (?pb + nat (i * 64) \<le> a \<and> a < ?pb + nat (i * 64) + 64)) \<longrightarrow>
              mem g2 a = mem g1 a"
    by blast
  \<comment> \<open>third loop: odd-indexed blocks to the second half\<close>
  have "\<exists>g'. for_loop 0 r
           (\<lambda>i h. and_then (slice_from b ((i + r) * 64)) (\<lambda>d.
                  and_then (slice_from y ((i * 2 + 1) * 64)) (\<lambda>s. blockCopy h d s 64)))
           g2 = Inr g' \<and> brk g' = brk g2 \<and>
         (\<forall>i. 0 \<le> i \<and> i < r \<longrightarrow>
            bytes_at g' (?pb + nat ((i + r) * 64)) 64 =
            bytes_at g2 (?py + nat ((i * 2 + 1) * 64)) 64) \<and>
         (\<forall>a. (\<forall>i. 0 \<le> i \<and> i < r \<longrightarrow>
                 \<not> (?pb + nat ((i + r) * 64) \<le> a \<and> a < ?pb + nat ((i + r) * 64) + 64)) \<longrightarrow>
              mem g' a = mem g2 a)"
  proof (rule copy_blocks)
    fix i :: int assume "0 \<le> i" "i < r"
    then show "0 \<le> (i + r) * 64 \<and> nat ((i + r) * 64) + 64 \<le> len b"
      and "0 \<le> (i * 2 + 1) * 64 \<and> nat ((i * 2 + 1) * 64) + 64 \<le> len y \<and>
           nat ((i * 2 + 1) * 64) + 64 \<le> cap y"
      using lb ly by (auto simp: nat_mult_distrib nat_add_distrib)
  next
    fix i j :: int assume "0 \<le> i" "i < j" "j < r"
    then show "nat ((i + r) * 64) + 64 \<le> nat ((j + r) * 64)"
      by (auto simp: nat_mult_distrib nat_add_distrib)
  next
    fix i j :: int assume "0 \<le> i" "i < r" "0 \<le> j" "j < r"
    then show "?pb + nat ((i + r) * 64) + 64 \<le> ?py + nat ((j * 2 + 1) * 64) \<or>
               ?py + nat ((j * 2 + 1) * 64) + 64 \<le> ?pb + nat ((i + r) * 64)"
      using disj by (auto simp: nat_mult_distrib nat_add_distrib)
  qed (use r in simp)
  then obtain g3 where g3: "for_loop 0 r
           (\<lambda>i h. and_then (slice_from b ((i + r) * 64)) (\<lambda>d.
                  and_then (slice_from y ((i * 2 + 1) * 64)) (\<lambda>s. blockCopy h d s 64)))
           g2 = Inr g3" "brk g3 = brk g2"
      "\<forall>i. 0 \<le> i \<and> i < r \<longrightarrow>
            bytes_at g3 (?pb + nat ((i + r) * 64)) 64 =
            bytes_at g2 (?py + nat ((i * 2 + 1) * 64)) 64"
      "\<forall>a. (\<forall>i. 0 \<le> i \<and> i < r \<longrightarrow>
                 \<not> (?pb + nat ((i + r) * 64) \<le> a \<and> a < ?pb + nat ((i + r) * 64) + 64)) \<longrightarrow>
              mem g3 a = mem g2 a"
    by blast
  \<comment> \<open>memory outside the first half of \<open>b\<close> after the second loop, outside the second half
      after the third\<close>
  have out2: "mem g2 a = mem g1 a" if "\<not> (?pb \<le> a \<and> a < ?pb + 64 * ?R)" for a
  proof -
    have "\<forall>i. 0 \<le> i \<and> i < r \<longrightarrow> \<not> (?pb + nat (i * 64) \<le> a \<and> a < ?pb + nat (i * 64) + 64)"
      using that by (auto simp: nat_mult_distrib)
    then show ?thesis using g2(4) by blast
  qed
  have out3: "mem g3 a = mem g2 a" if "\<not> (?pb + 64 * ?R \<le> a \<and> a < ?pb + 128 * ?R)" for a
  proof -
    have "\<forall>i. 0 \<le> i \<and> i < r \<longrightarrow>
        \<not> (?pb + nat ((i + r) * 64) \<le> a \<and> a < ?pb + nat ((i + r) * 64) + 64)"
      using that by (auto simp: nat_mult_distrib nat_add_distrib)
    then show ?thesis using g3(4) by blast
  qed
  have evens: "bytes_at g3 (?pb + 64 * j) 64 = Y ! (2 * j)" if "j < ?R" for j
  proof -
    have "bytes_at g3 (?pb + 64 * j) 64 = bytes_at g2 (?pb + 64 * j) 64"
      by (rule bytes_at_cong, rule out3) (use that in linarith)
    also have "\<dots> = bytes_at g1 (?py + 64 * (2 * j)) 64"
      using g2(3)[rule_format, of "int j"] that by (simp add: nat_mult_distrib mult.commute)
    also have "\<dots> = Y ! (2 * j)" using g1(4)[rule_format, of "2 * j"] that by simp
    finally show ?thesis .
  qed
  have odds: "bytes_at g3 (?pb + 64 * ?R + 64 * j) 64 = Y ! (2 * j + 1)" if "j < ?R" for j
  proof -
    have "bytes_at g3 (?pb + 64 * ?R + 64 * j) 64 = bytes_at g2 (?py + 64 * (2 * j + 1)) 64"
      using g3(3)[rule_format, of "int j"] that r
      by (simp add: nat_mult_distrib nat_add_distrib mult.commute add.commute add.left_commute
          distrib_left)
    also have "\<dots> = bytes_at g1 (?py + 64 * (2 * j + 1)) 64"
      by (rule bytes_at_cong, rule out2) (use that disj in auto)
    also have "\<dots> = Y ! (2 * j + 1)" using g1(4)[rule_format, of "2 * j + 1"] that by simp
    finally show ?thesis .
  qed
  have "bytes_at g3 ?pb (128 * ?R) =
        bytes_at g3 ?pb (64 * ?R) @ bytes_at g3 (?pb + 64 * ?R) (64 * ?R)"
    using bytes_at_add[of g3 ?pb "64 * ?R" "64 * ?R"] by simp
  also have "bytes_at g3 ?pb (64 * ?R) = concat (map (\<lambda>i. Y ! (2 * i)) [0..<?R])"
    by (rule bytes_at_blocks) (use evens in simp)
  also have "bytes_at g3 (?pb + 64 * ?R) (64 * ?R) = concat (map (\<lambda>i. Y ! (2 * i + 1)) [0..<?R])"
    by (rule bytes_at_blocks) (use odds in simp)
  finally have res: "bytes_at g3 ?pb (128 * ?R) = BlockMix ?R B"
    by (simp add: BlockMix_alt Y_def Let_def)
  have frame: "mem g3 a = mem h a"
    if "a < ?xa \<and> \<not> (?pb \<le> a \<and> a < ?pb + 128 * ?R) \<and> \<not> (?py \<le> a \<and> a < ?py + 128 * ?R)" for a
  proof -
    have "mem g3 a = mem g2 a" by (rule out3) (use that in linarith)
    also have "\<dots> = mem g1 a" by (rule out2) (use that in linarith)
    also have "\<dots> = mem g0 a" using g1(3) that by blast
    also have "\<dots> = mem h a" using g0(2) that by blast
    finally show ?thesis .
  qed
  have "blockMix_post h b y ?R g3"
    unfolding blockMix_post_def using res frame g3(2) g2(2) g1(2) g0(1) by (simp add: B_def)
  then show ?thesis
    unfolding g1(1) and_then_Inr g2(1) g3(1) by blast
qed

definition salsa_ok :: "(heap \<Rightarrow> slice \<Rightarrow> heap go) \<Rightarrow> bool" where
  "salsa_ok S \<longleftrightarrow>
     (\<forall>h x. 64 \<le> len x \<longrightarrow>
        S h x = Inr (store_at h (ptr x) (Salsa20_8 (bytes_at h (ptr x) 64))))"

lemma salsa_ok_salsa: "salsa_ok salsa"
  by (simp add: salsa_ok_def salsa_correct)

lemma salsa_ok_salsa_rot: "salsa_ok salsa_rot"
  by (simp add: salsa_ok_def salsa_rot_correct)

lemma blockMix_start:
  assumes pre: "blockMix_pre h b y r"
  shows "make h 64 = Inr (store_at (h\<lparr>brk := brk h + 64\<rparr>) (brk h) (replicate 64 0),
                         \<lparr>ptr = brk h, len = 64, cap = 64\<rparr>)"
    and "slice_from b ((2 * r - 1) * 64) =
           Inr \<lparr>ptr = ptr b + 64 * (2 * nat r - 1), len = len b - 64 * (2 * nat r - 1),
                cap = cap b - 64 * (2 * nat r - 1)\<rparr>"
    and "64 \<le> len b - 64 * (2 * nat r - 1)" "64 \<le> cap b - 64 * (2 * nat r - 1)"
    and "bytes_at (store_at (h\<lparr>brk := brk h + 64\<rparr>) (brk h) (replicate 64 0))
           (ptr b + 64 * (2 * nat r - 1)) 64 =
         sub_block (bytes_at h (ptr b) (128 * nat r)) (2 * nat r - 1)"
proof -
  from pre have r: "1 \<le> r" and lb: "128 * nat r \<le> len b" "len b \<le> cap b"
    and below: "ptr b + 128 * nat r \<le> brk h"
    by (auto simp: blockMix_pre_def)
  show "make h 64 = Inr (store_at (h\<lparr>brk := brk h + 64\<rparr>) (brk h) (replicate 64 0),
                         \<lparr>ptr = brk h, len = 64, cap = 64\<rparr>)"
    using make_ok[of 64 h] by simp
  have n: "nat ((2 * r - 1) * 64) = 64 * (2 * nat r - 1)"
    using r by (simp add: nat_mult_distrib nat_diff_distrib)
  show "slice_from b ((2 * r - 1) * 64) =
           Inr \<lparr>ptr = ptr b + 64 * (2 * nat r - 1), len = len b - 64 * (2 * nat r - 1),
                cap = cap b - 64 * (2 * nat r - 1)\<rparr>"
    using r lb by (subst slice_from_ok) (auto simp: n)
  show "64 \<le> len b - 64 * (2 * nat r - 1)" "64 \<le> cap b - 64 * (2 * nat r - 1)"
    using r lb by auto
  have "bytes_at (store_at (h\<lparr>brk := brk h + 64\<rparr>) (brk h) (replicate 64 0))
           (ptr b + 64 * (2 * nat r - 1)) 64 = bytes_at h (ptr b + 64 * (2 * nat r - 1)) 64"
    by (rule bytes_at_cong) (use r below in \<open>auto simp: mem_store_at\<close>)
  also have "\<dots> = sub_block (bytes_at h (ptr b) (128 * nat r)) (2 * nat r - 1)"
    using r by (subst sub_block_bytes_at) auto
  finally show "bytes_at (store_at (h\<lparr>brk := brk h + 64\<rparr>) (brk h) (replicate 64 0))
           (ptr b + 64 * (2 * nat r - 1)) 64 =
         sub_block (bytes_at h (ptr b) (128 * nat r)) (2 * nat r - 1)" .
qed

lemma blockMix_with_correct:
  assumes S: "salsa_ok S"
  shows "blockMix_ok (blockMix_with S)"
  unfolding blockMix_ok_def
proof (intro allI impI)
  fix h b y r
  assume pre: "blockMix_pre h b y r"
  let ?xa = "brk h"
  let ?x = "\<lparr>ptr = ?xa, len = 64, cap = 64\<rparr>"
  let ?h1 = "store_at (h\<lparr>brk := brk h + 64\<rparr>) ?xa (replicate 64 0)"
  let ?X0 = "sub_block (bytes_at h (ptr b) (128 * nat r)) (2 * nat r - 1)"
  let ?g0 = "store_at ?h1 ?xa ?X0"
  note st = blockMix_start[OF pre]
  from pre have r: "1 \<le> r" and lb: "128 * nat r \<le> len b" "len b \<le> cap b"
    and ly: "128 * nat r \<le> len y" "len y \<le> cap y"
    and below: "ptr b + 128 * nat r \<le> ?xa" "ptr y + 128 * nat r \<le> ?xa"
    by (auto simp: blockMix_pre_def)
  have lX0: "length ?X0 = 64" using st(5)[symmetric] by (metis length_bytes_at)
  have copy0: "blockCopy ?h1 ?x
      \<lparr>ptr = ptr b + 64 * (2 * nat r - 1), len = len b - 64 * (2 * nat r - 1),
        cap = cap b - 64 * (2 * nat r - 1)\<rparr> 64 = Inr ?g0"
  proof -
    have "blockCopy ?h1 ?x
      \<lparr>ptr = ptr b + 64 * (2 * nat r - 1), len = len b - 64 * (2 * nat r - 1),
        cap = cap b - 64 * (2 * nat r - 1)\<rparr> 64 =
      Inr (store_at ?h1 (ptr ?x) (bytes_at ?h1 (ptr \<lparr>ptr = ptr b + 64 * (2 * nat r - 1),
        len = len b - 64 * (2 * nat r - 1), cap = cap b - 64 * (2 * nat r - 1)\<rparr>) 64))"
      by (rule blockCopy_64) (simp_all only: slice.simps st(3,4))
    then show ?thesis by (simp only: slice.simps st(5))
  qed
  have step: "and_then (slice_from b (k * 64)) (\<lambda>s.
                 and_then (blockXOR g ?x s 64) (\<lambda>h.
                 and_then (S h ?x) (\<lambda>h.
                 and_then (slice_from y (k * 64)) (\<lambda>d.
                   blockCopy h d ?x 64)))) =
      Inr (store_at (store_at g ?xa
          (Salsa20_8 (xor_bytes (bytes_at g ?xa 64) (bytes_at g (ptr b + 64 * nat k) 64))))
        (ptr y + 64 * nat k)
          (Salsa20_8 (xor_bytes (bytes_at g ?xa 64) (bytes_at g (ptr b + 64 * nat k) 64))))"
    if k: "0 \<le> k" "k < 2 * r" for k g
  proof -
    let ?K = "nat k"
    have K: "?K < 2 * nat r" using k by linarith
    have nk: "nat (k * 64) = 64 * ?K" using k by (simp add: nat_mult_distrib)
    let ?s = "\<lparr>ptr = ptr b + 64 * ?K, len = len b - 64 * ?K, cap = cap b - 64 * ?K\<rparr>"
    let ?d = "\<lparr>ptr = ptr y + 64 * ?K, len = len y - 64 * ?K, cap = cap y - 64 * ?K\<rparr>"
    let ?XR = "xor_bytes (bytes_at g ?xa 64) (bytes_at g (ptr b + 64 * ?K) 64)"
    have sb: "slice_from b (k * 64) = Inr ?s"
      using k K lb by (subst slice_from_ok) (auto simp: nk)
    have sy: "slice_from y (k * 64) = Inr ?d"
      using k K ly by (subst slice_from_ok) (auto simp: nk)
    have x1: "blockXOR g ?x ?s 64 = Inr (store_at g ?xa ?XR)"
      using blockXOR_ok[of 64 ?s ?x g] K lb below by simp
    have x2: "S (store_at g ?xa ?XR) ?x = Inr (store_at g ?xa (Salsa20_8 ?XR))"
      using S by (simp add: salsa_ok_def store_at_store_at_same)
    have x3: "blockCopy (store_at g ?xa (Salsa20_8 ?XR)) ?d ?x 64 =
        Inr (store_at (store_at g ?xa (Salsa20_8 ?XR)) (ptr y + 64 * ?K) (Salsa20_8 ?XR))"
      using K ly by (subst blockCopy_64) auto
    show ?thesis unfolding sb sy and_then_Inr x1 x2 x3 ..
  qed
  have "\<exists>h'. and_then (for_loop 0 (2 * r)
          (\<lambda>i h. and_then (slice_from b (i * 64)) (\<lambda>s.
                 and_then (blockXOR h ?x s 64) (\<lambda>h.
                 and_then (S h ?x) (\<lambda>h.
                 and_then (slice_from y (i * 64)) (\<lambda>d.
                   blockCopy h d ?x 64)))))
          ?g0) (\<lambda>h.
     and_then
       (for_loop 0 r
          (\<lambda>i h. and_then (slice_from b (i * 64)) (\<lambda>d.
                 and_then (slice_from y ((i * 2) * 64)) (\<lambda>s.
                   blockCopy h d s 64)))
          h) (\<lambda>h.
     for_loop 0 r
       (\<lambda>i h. and_then (slice_from b ((i + r) * 64)) (\<lambda>d.
              and_then (slice_from y ((i * 2 + 1) * 64)) (\<lambda>s.
                blockCopy h d s 64)))
       h)) = Inr h' \<and> blockMix_post h b y (nat r) h'"
  proof (rule blockMix_tail[OF pre])
    show "brk ?g0 = brk h + 64" by simp
    show "\<forall>a<brk h. mem ?g0 a = mem h a" by (auto simp: mem_store_at)
    show "bytes_at ?g0 ?xa 64 = ?X0" by (rule bytes_at_store_at_same) (rule lX0[symmetric])
  qed (rule step)
  then show "\<exists>h'. blockMix_with S h b y r = Inr h' \<and> blockMix_post h b y (nat r) h'"
    unfolding blockMix_with_def st(1) st(2) and_then_Inr prod.case copy0 .
qed

lemma blockXORToArr_eq: "blockXORToArr h x s = blockXOR h (arr64 x) s 64"
  by (simp add: blockXORToArr_def blockXOR_def)

lemma blockMix_arr_correct: "blockMix_ok blockMix_arr"
  unfolding blockMix_ok_def
proof (intro allI impI)
  fix h b y r
  assume pre: "blockMix_pre h b y r"
  let ?xa = "brk h"
  let ?h1 = "store_at (h\<lparr>brk := brk h + 64\<rparr>) ?xa (replicate 64 0)"
  let ?X0 = "sub_block (bytes_at h (ptr b) (128 * nat r)) (2 * nat r - 1)"
  let ?g0 = "store_at ?h1 ?xa ?X0"
  note st = blockMix_start[OF pre]
  from pre have r: "1 \<le> r" and lb: "128 * nat r \<le> len b" "len b \<le> cap b"
    and ly: "128 * nat r \<le> len y" "len y \<le> cap y"
    and below: "ptr b + 128 * nat r \<le> ?xa" "ptr y + 128 * nat r \<le> ?xa"
    by (auto simp: blockMix_pre_def)
  have lX0: "length ?X0 = 64" using st(5)[symmetric] by (metis length_bytes_at)
  have copy0: "blockCopyToArr ?h1 ?xa
      \<lparr>ptr = ptr b + 64 * (2 * nat r - 1), len = len b - 64 * (2 * nat r - 1),
        cap = cap b - 64 * (2 * nat r - 1)\<rparr> = ?g0"
  proof -
    have "min 64 (len b - 64 * (2 * nat r - 1)) = 64" using st(3) by simp
    then have "blockCopyToArr ?h1 ?xa
      \<lparr>ptr = ptr b + 64 * (2 * nat r - 1), len = len b - 64 * (2 * nat r - 1),
        cap = cap b - 64 * (2 * nat r - 1)\<rparr> =
      store_at ?h1 ?xa (bytes_at ?h1 (ptr b + 64 * (2 * nat r - 1)) 64)"
      by (simp only: blockCopyToArr_def copy_store_at arr64_def slice.simps)
    then show ?thesis by (simp only: st(5))
  qed
  have step: "and_then (slice_from b (k * 64)) (\<lambda>s.
                 and_then (blockXORToArr g ?xa s) (\<lambda>h.
                 let h = salsa_arr h ?xa in
                 and_then (slice_from y (k * 64)) (\<lambda>d.
                   Inr (blockCopyFromArr h d ?xa)))) =
      Inr (store_at (store_at g ?xa
          (Salsa20_8 (xor_bytes (bytes_at g ?xa 64) (bytes_at g (ptr b + 64 * nat k) 64))))
        (ptr y + 64 * nat k)
          (Salsa20_8 (xor_bytes (bytes_at g ?xa 64) (bytes_at g (ptr b + 64 * nat k) 64))))"
    if k: "0 \<le> k" "k < 2 * r" for k g
  proof -
    let ?K = "nat k"
    have K: "?K < 2 * nat r" using k by linarith
    have nk: "nat (k * 64) = 64 * ?K" using k by (simp add: nat_mult_distrib)
    let ?s = "\<lparr>ptr = ptr b + 64 * ?K, len = len b - 64 * ?K, cap = cap b - 64 * ?K\<rparr>"
    let ?d = "\<lparr>ptr = ptr y + 64 * ?K, len = len y - 64 * ?K, cap = cap y - 64 * ?K\<rparr>"
    let ?XR = "xor_bytes (bytes_at g ?xa 64) (bytes_at g (ptr b + 64 * ?K) 64)"
    have sb: "slice_from b (k * 64) = Inr ?s"
      using k K lb by (subst slice_from_ok) (auto simp: nk)
    have sy: "slice_from y (k * 64) = Inr ?d"
      using k K ly by (subst slice_from_ok) (auto simp: nk)
    have x1: "blockXORToArr g ?xa ?s = Inr (store_at g ?xa ?XR)"
      unfolding blockXORToArr_eq
      using blockXOR_ok[of 64 ?s "arr64 ?xa" g] K lb below by (simp add: arr64_def)
    have x2: "salsa_arr (store_at g ?xa ?XR) ?xa = store_at g ?xa (Salsa20_8 ?XR)"
      by (simp add: salsa_arr_correct store_at_store_at_same)
    have "min (len y - 64 * ?K) 64 = 64" using K ly by simp
    then have x3: "blockCopyFromArr (store_at g ?xa (Salsa20_8 ?XR)) ?d ?xa =
        store_at (store_at g ?xa (Salsa20_8 ?XR)) (ptr y + 64 * ?K) (Salsa20_8 ?XR)"
      by (simp add: blockCopyFromArr_def copy_store_at arr64_def)
    show ?thesis unfolding sb sy and_then_Inr x1 x2 Let_def x3 ..
  qed
  have "\<exists>h'. and_then (for_loop 0 (2 * r)
          (\<lambda>i h. and_then (slice_from b (i * 64)) (\<lambda>s.
                 and_then (blockXORToArr h ?xa s) (\<lambda>h.
                 let h = salsa_arr h ?xa in
                 and_then (slice_from y (i * 64)) (\<lambda>d.
                   Inr (blockCopyFromArr h d ?xa)))))
          ?g0) (\<lambda>h.
     and_then
       (for_loop 0 r
          (\<lambda>i h. and_then (slice_from b (i * 64)) (\<lambda>d.
                 and_then (slice_from y ((i * 2) * 64)) (\<lambda>s.
                   blockCopy h d s 64)))
          h) (\<lambda>h.
     for_loop 0 r
       (\<lambda>i h. and_then (slice_from b ((i + r) * 64)) (\<lambda>d.
              and_then (slice_from y ((i * 2 + 1) * 64)) (\<lambda>s.
                blockCopy h d s 64)))
       h)) = Inr h' \<and> blockMix_post h b y (nat r) h'"
  proof (rule blockMix_tail[OF pre])
    show "brk ?g0 = brk h + 64" by simp
    show "\<forall>a<brk h. mem ?g0 a = mem h a" by (auto simp: mem_store_at)
    show "bytes_at ?g0 ?xa 64 = ?X0" by (rule bytes_at_store_at_same) (rule lX0[symmetric])
  qed (rule step)
  then show "\<exists>h'. blockMix_arr h b y r = Inr h' \<and> blockMix_post h b y (nat r) h'"
    unfolding blockMix_arr_def st(1) st(2) and_then_Inr prod.case Let_def slice.simps copy0 .
qed

subsection \<open>SMix of the specification, step by step\<close>

definition sm_fill :: "nat \<Rightarrow> nat \<Rightarrow> byte list \<Rightarrow> nat \<Rightarrow> byte list \<times> byte list list" where
  "sm_fill r N B k = fold (\<lambda>i (X, V). (BlockMix r X, V[i := X])) [0..<k] (B, replicate N [])"

definition sm_mix :: "nat \<Rightarrow> nat \<Rightarrow> byte list list \<Rightarrow> byte list \<Rightarrow> nat \<Rightarrow> byte list" where
  "sm_mix r N V X k =
     fold (\<lambda>i X. let j = unat (Integerify r X AND word_of_nat (N - 1))
                  in BlockMix r (xor_bytes X (V ! j)))
       [0..<k] X"

lemma SMix_alt: "SMix r N B = (let (X, V) = sm_fill r N B N in sm_mix r N V X N)"
  by (simp add: SMix_def sm_fill_def sm_mix_def Let_def split: prod.split)

lemma sm_fill_0: "sm_fill r N B 0 = (B, replicate N [])"
  by (simp add: sm_fill_def)

lemma sm_fill_Suc:
  "sm_fill r N B (Suc k) = (BlockMix r (fst (sm_fill r N B k)),
                            (snd (sm_fill r N B k))[k := fst (sm_fill r N B k)])"
  by (simp add: sm_fill_def split: prod.split)

lemma length_snd_sm_fill [simp]: "length (snd (sm_fill r N B k)) = N"
  by (induction k) (simp_all add: sm_fill_0 sm_fill_Suc)

lemma sm_mix_0: "sm_mix r N V X 0 = X"
  by (simp add: sm_mix_def)

lemma sm_mix_Suc:
  "sm_mix r N V X (Suc k) =
     BlockMix r (xor_bytes (sm_mix r N V X k)
       (V ! unat (Integerify r (sm_mix r N V X k) AND word_of_nat (N - 1))))"
  by (simp add: sm_mix_def Let_def)

subsection \<open>What smix needs and what it guarantees\<close>

definition smix_pre :: "heap \<Rightarrow> slice \<Rightarrow> int \<Rightarrow> int \<Rightarrow> slice \<Rightarrow> slice \<Rightarrow> bool" where
  "smix_pre h b r N v xy \<longleftrightarrow>
     1 \<le> r \<and> 1 \<le> N \<and> N \<le> 2 ^ 63 \<and>
     128 * nat r \<le> len b \<and> len b \<le> cap b \<and>
     128 * nat r * nat N \<le> len v \<and> len v \<le> cap v \<and>
     256 * nat r \<le> len xy \<and> len xy \<le> cap xy \<and>
     ptr b + 128 * nat r \<le> brk h \<and> ptr v + 128 * nat r * nat N \<le> brk h \<and>
     ptr xy + 256 * nat r \<le> brk h \<and>
     (ptr b + 128 * nat r \<le> ptr v \<or> ptr v + 128 * nat r * nat N \<le> ptr b) \<and>
     (ptr b + 128 * nat r \<le> ptr xy \<or> ptr xy + 256 * nat r \<le> ptr b) \<and>
     (ptr v + 128 * nat r * nat N \<le> ptr xy \<or> ptr xy + 256 * nat r \<le> ptr v)"

definition smix_post :: "heap \<Rightarrow> slice \<Rightarrow> nat \<Rightarrow> nat \<Rightarrow> slice \<Rightarrow> slice \<Rightarrow> heap \<Rightarrow> bool" where
  "smix_post h b R N v xy h' \<longleftrightarrow>
     bytes_at h' (ptr b) (128 * R) = SMix R N (bytes_at h (ptr b) (128 * R)) \<and>
     brk h \<le> brk h' \<and>
     (\<forall>a. a < brk h \<and> \<not> (ptr b \<le> a \<and> a < ptr b + 128 * R) \<and>
          \<not> (ptr v \<le> a \<and> a < ptr v + 128 * R * N) \<and>
          \<not> (ptr xy \<le> a \<and> a < ptr xy + 256 * R) \<longrightarrow> mem h' a = mem h a)"

lemma block_bounds:
  fixes n j N :: nat
  assumes "j < N"
  shows "n * j + n \<le> n * N"
proof -
  have "n * Suc j \<le> n * N" using assms by (intro mult_le_mono2) simp
  then show ?thesis by simp
qed

lemma smix_fill_loop:
  fixes F :: "heap \<Rightarrow> slice \<Rightarrow> slice \<Rightarrow> int \<Rightarrow> heap go"
  assumes F: "blockMix_ok F"
    and r: "1 \<le> r" and N: "0 \<le> N"
    and n: "n = 128 * nat r"
    and lv: "n * nat N \<le> len v"
    and lxy: "2 * n \<le> len xy" "len xy \<le> cap xy"
    and below: "ptr v + n * nat N \<le> brk g0" "ptr xy + 2 * n \<le> brk g0"
    and disj: "ptr v + n * nat N \<le> ptr xy \<or> ptr xy + 2 * n \<le> ptr v"
    and B: "bytes_at g0 (ptr xy) n = B"
  shows "\<exists>g'. for_loop 0 N
           (\<lambda>i h. and_then (slice_from v (i * (128 * r))) (\<lambda>d.
                  and_then (blockCopy h d xy (128 * r)) (\<lambda>h.
                    F h xy \<lparr>ptr = ptr xy + n, len = len xy - n, cap = cap xy - n\<rparr> r)))
           g0 = Inr g' \<and> brk g0 \<le> brk g' \<and>
      (\<forall>a. a < brk g0 \<and> \<not> (ptr v \<le> a \<and> a < ptr v + n * nat N) \<and>
           \<not> (ptr xy \<le> a \<and> a < ptr xy + 2 * n) \<longrightarrow> mem g' a = mem g0 a) \<and>
      bytes_at g' (ptr xy) n = fst (sm_fill (nat r) (nat N) B (nat N)) \<and>
      (\<forall>j < nat N. bytes_at g' (ptr v + n * j) n = snd (sm_fill (nat r) (nat N) B (nat N)) ! j)"
proof -
  let ?y = "\<lparr>ptr = ptr xy + n, len = len xy - n, cap = cap xy - n\<rparr>"
  let ?st = "sm_fill (nat r) (nat N) B"
  let ?I = "\<lambda>k g. brk g0 \<le> brk g \<and>
      (\<forall>a. a < brk g0 \<and> \<not> (ptr v \<le> a \<and> a < ptr v + n * nat N) \<and>
           \<not> (ptr xy \<le> a \<and> a < ptr xy + 2 * n) \<longrightarrow> mem g a = mem g0 a) \<and>
      bytes_at g (ptr xy) n = fst (?st (nat k)) \<and>
      (\<forall>j < nat k. bytes_at g (ptr v + n * j) n = snd (?st (nat k)) ! j)"
  have n128: "nat (128 * r) = n" using r n by (simp add: nat_mult_distrib)
  show ?thesis
  proof (rule for_loop_inv[where I = ?I])
    show "?I 0 g0" using B by (simp add: sm_fill_0)
  next
    fix k :: int and g :: heap
    assume k: "0 \<le> k" "k < N" and g: "?I k g"
    let ?K = "nat k"
    have K: "?K < nat N" using k by linarith
    have blk: "n * ?K + n \<le> n * nat N" using K by (rule block_bounds)
    have nk: "nat (k * (128 * r)) = n * ?K"
      using k r n by (simp add: nat_mult_distrib mult.commute)
    define X where "X = fst (?st ?K)"
    define V where "V = snd (?st ?K)"
    have lV: "length V = nat N" by (simp add: V_def)
    have gx: "bytes_at g (ptr xy) n = X" using g by (simp add: X_def)
    let ?d = "\<lparr>ptr = ptr v + n * ?K, len = len v - n * ?K, cap = cap v - n * ?K\<rparr>"
    let ?g1 = "store_at g (ptr v + n * ?K) X"
    have lX: "length X = n" using gx[symmetric] by simp
    have sv: "slice_from v (k * (128 * r)) = Inr ?d"
      using k r blk lv by (subst slice_from_ok) (auto simp: nk intro: mult_nonneg_nonneg)
    have cp: "blockCopy g ?d xy (128 * r) = Inr ?g1"
      using blockCopy_ok[of "128 * r" xy ?d g] r lxy lv blk by (simp add: n128 gx)
    have pre: "blockMix_pre ?g1 xy ?y r"
      unfolding blockMix_pre_def using r lxy below g n by auto
    from F pre obtain g2 where g2: "F ?g1 xy ?y r = Inr g2" "blockMix_post ?g1 xy ?y (nat r) g2"
      unfolding blockMix_ok_def by blast
    have xy1: "bytes_at ?g1 (ptr xy) n = X"
      unfolding gx[symmetric] using disj blk by (intro bytes_at_store_at_outside) (auto simp: lX)
    from g2(2) have res: "bytes_at g2 (ptr xy) n = BlockMix (nat r) X"
      and brk2: "brk ?g1 \<le> brk g2"
      and fr2: "\<And>a. a < brk g \<Longrightarrow> \<not> (ptr xy \<le> a \<and> a < ptr xy + 2 * n) \<Longrightarrow> mem g2 a = mem ?g1 a"
      unfolding blockMix_post_def n[symmetric] xy1 by auto
    have vblock: "bytes_at g2 (ptr v + n * j) n = bytes_at ?g1 (ptr v + n * j) n" if "j < nat N" for j
    proof (rule bytes_at_cong)
      fix a assume a: "ptr v + n * j \<le> a" "a < ptr v + n * j + n"
      have "n * j + n \<le> n * nat N" using that by (rule block_bounds)
      then have "a < brk g \<and> \<not> (ptr xy \<le> a \<and> a < ptr xy + 2 * n)"
        using a below disj g by linarith
      then show "mem g2 a = mem ?g1 a" using fr2 by blast
    qed
    have next_state: "?st (nat (k + 1)) = (BlockMix (nat r) X, V[?K := X])"
      using k by (simp add: nat_add_distrib sm_fill_Suc X_def V_def)
    have "?I (k + 1) g2"
      unfolding next_state fst_conv snd_conv
    proof (intro conjI allI impI)
      show "brk g0 \<le> brk g2" using g brk2 by simp
    next
      fix a
      assume a: "a < brk g0 \<and> \<not> (ptr v \<le> a \<and> a < ptr v + n * nat N) \<and>
           \<not> (ptr xy \<le> a \<and> a < ptr xy + 2 * n)"
      then have "mem g2 a = mem ?g1 a" using fr2 g by simp
      also have "\<dots> = mem g a" using a blk by (auto simp: mem_store_at lX)
      also have "\<dots> = mem g0 a" using g a by blast
      finally show "mem g2 a = mem g0 a" .
    next
      show "bytes_at g2 (ptr xy) n = BlockMix (nat r) X" by (rule res)
    next
      fix j assume j: "j < nat (k + 1)"
      then have jN: "j < nat N" using K k by linarith
      show "bytes_at g2 (ptr v + n * j) n = V[?K := X] ! j"
      proof (cases "j = ?K")
        case True
        then show ?thesis using vblock[OF jN] K lV by (simp add: lX)
      next
        case False
        then have jk: "j < ?K" using j k by linarith
        have "n * j + n \<le> n * ?K" using jk by (rule block_bounds)
        then have "bytes_at ?g1 (ptr v + n * j) n = bytes_at g (ptr v + n * j) n"
          by (intro bytes_at_store_at_outside) (simp add: lX)
        also have "\<dots> = V ! j" using g jk by (simp add: V_def)
        finally show ?thesis using vblock[OF jN] False by simp
      qed
    qed
    then show "\<exists>t'. and_then (slice_from v (k * (128 * r))) (\<lambda>d.
                  and_then (blockCopy g d xy (128 * r)) (\<lambda>h. F h xy ?y r)) = Inr t' \<and>
               ?I (k + 1) t'"
      unfolding sv and_then_Inr cp g2(1) by blast
  qed (rule N)
qed

lemma mix_index_less:
  fixes k :: uint64
  assumes "1 \<le> N" "N \<le> 2 ^ 63"
  shows "unat (k AND (word_of_nat (nat N - 1) :: uint64)) < nat N"
proof -
  have "nat N - 1 < 2 ^ 64" using assms by (simp add: nat_diff_distrib nat_less_iff)
  then have u: "unat (word_of_nat (nat N - 1) :: uint64) = nat N - 1"
    by (simp add: unat_of_nat)
  have "k AND word_of_nat (nat N - 1) \<le> (word_of_nat (nat N - 1) :: uint64)"
    by (rule word_and_le1)
  then have "unat (k AND (word_of_nat (nat N - 1) :: uint64)) \<le> nat N - 1"
    unfolding word_le_nat_alt u .
  then show ?thesis using assms by linarith
qed

lemma mix_index_sint:
  fixes k :: uint64
  assumes "1 \<le> N" "N \<le> 2 ^ 63"
  shows "sint (k AND (word_of_int (N - 1) :: uint64)) = int (unat (k AND word_of_nat (nat N - 1)))"
proof -
  have "(word_of_int (N - 1) :: uint64) = word_of_nat (nat (N - 1))"
    by (rule word_of_int_nat) (use assms in simp)
  moreover have "nat (N - 1) = nat N - 1" by linarith
  ultimately have w: "(word_of_int (N - 1) :: uint64) = word_of_nat (nat N - 1)" by simp
  let ?w = "k AND (word_of_nat (nat N - 1) :: uint64)"
  have "unat ?w < nat N" using assms by (rule mix_index_less)
  then have "uint ?w < 2 ^ 63" using assms unfolding uint_nat by linarith
  moreover have "0 \<le> uint ?w" by simp
  ultimately have "signed_take_bit 63 (uint ?w) = uint ?w"
    by (intro signed_take_bit_int_eq_self) linarith+
  moreover have "sint ?w = signed_take_bit 63 (uint ?w)"
    using sint_uint[of ?w] by simp
  ultimately have "sint ?w = uint ?w" by simp
  then show ?thesis unfolding w uint_nat .
qed

lemma bytes_at_8:
  "bytes_at h a 8 = [mem h a, mem h (a + 1), mem h (a + 2), mem h (a + 3),
                     mem h (a + 4), mem h (a + 5), mem h (a + 6), mem h (a + 7)]"
  by (rule nth_equalityI) (auto simp: less_Suc_eq eval_nat_numeral)

lemma Uint64_ok: "8 \<le> len s \<Longrightarrow> Uint64 h s = Inr (le_word (bytes_at h (ptr s) 8))"
  by (simp add: Uint64_def index_ok le64 bytes_at_8)

lemma integerify_ok:
  assumes "1 \<le> r" "128 * nat r \<le> len b"
  shows "integerify h b r = Inr (Integerify (nat r) (bytes_at h (ptr b) (128 * nat r)))"
proof -
  have n: "nat ((2 * r - 1) * 64) = (2 * nat r - 1) * 64"
    using assms(1) by (simp add: nat_mult_distrib nat_diff_distrib)
  have s: "slice_from b ((2 * r - 1) * 64) =
      Inr \<lparr>ptr = ptr b + (2 * nat r - 1) * 64, len = len b - (2 * nat r - 1) * 64,
           cap = cap b - (2 * nat r - 1) * 64\<rparr>"
    using assms by (subst slice_from_ok) (auto simp: n)
  have "take 8 (drop ((2 * nat r - 1) * 64) (bytes_at h (ptr b) (128 * nat r))) =
        bytes_at h (ptr b + (2 * nat r - 1) * 64) 8"
    using assms(1) by (auto simp: min_def)
  then show ?thesis
    unfolding integerify_def s and_then_Inr Integerify_def
    using assms by (subst Uint64_ok) auto
qed

lemma length_BlockMix_mem:
  "blockMix_post h b y R h' \<Longrightarrow> length (BlockMix R (bytes_at h (ptr b) (128 * R))) = 128 * R"
  unfolding blockMix_post_def by (metis length_bytes_at)

lemma smix_mix_loop:
  fixes F :: "heap \<Rightarrow> slice \<Rightarrow> slice \<Rightarrow> int \<Rightarrow> heap go"
  assumes F: "blockMix_ok F"
    and r: "1 \<le> r" and N: "1 \<le> N" "N \<le> 2 ^ 63"
    and n: "n = 128 * nat r"
    and lv: "n * nat N \<le> len v" "len v \<le> cap v"
    and lxy: "2 * n \<le> len xy" "len xy \<le> cap xy"
    and below: "ptr v + n * nat N \<le> brk g0" "ptr xy + 2 * n \<le> brk g0"
    and disj: "ptr v + n * nat N \<le> ptr xy \<or> ptr xy + 2 * n \<le> ptr v"
    and V: "\<forall>j < nat N. bytes_at g0 (ptr v + n * j) n = V ! j"
    and X0: "bytes_at g0 (ptr xy) n = X0"
  shows "\<exists>g'. for_loop 0 N
           (\<lambda>i h. and_then (integerify h xy r) (\<lambda>k.
                  let j = sint (k AND (word_of_int (N - 1) :: uint64)) in
                  and_then (slice_from v (j * (128 * r))) (\<lambda>s.
                  and_then (blockXOR h xy s (128 * r)) (\<lambda>h.
                    F h xy \<lparr>ptr = ptr xy + n, len = len xy - n, cap = cap xy - n\<rparr> r))))
           g0 = Inr g' \<and> brk g0 \<le> brk g' \<and>
      (\<forall>a. a < brk g0 \<and> \<not> (ptr xy \<le> a \<and> a < ptr xy + 2 * n) \<longrightarrow> mem g' a = mem g0 a) \<and>
      bytes_at g' (ptr xy) n = sm_mix (nat r) (nat N) V X0 (nat N)"
proof -
  let ?y = "\<lparr>ptr = ptr xy + n, len = len xy - n, cap = cap xy - n\<rparr>"
  let ?I = "\<lambda>k g. brk g0 \<le> brk g \<and>
      (\<forall>a. a < brk g0 \<and> \<not> (ptr xy \<le> a \<and> a < ptr xy + 2 * n) \<longrightarrow> mem g a = mem g0 a) \<and>
      bytes_at g (ptr xy) n = sm_mix (nat r) (nat N) V X0 (nat k)"
  have n128: "nat (128 * r) = n" using r n by (simp add: nat_mult_distrib)
  show ?thesis
  proof (rule for_loop_inv[where I = ?I])
    show "?I 0 g0" using X0 by (simp add: sm_mix_0)
  next
    fix k :: int and g :: heap
    assume k: "0 \<le> k" "k < N" and g: "?I k g"
    define X where "X = sm_mix (nat r) (nat N) V X0 (nat k)"
    have gx: "bytes_at g (ptr xy) n = X" using g by (simp add: X_def)
    have lX: "length X = n" using gx[symmetric] by simp
    define w where "w = Integerify (nat r) X AND (word_of_nat (nat N - 1) :: uint64)"
    define j where "j = unat w"
    have jN: "j < nat N" unfolding j_def w_def using N by (rule mix_index_less)
    have blk: "n * j + n \<le> n * nat N" using jN by (rule block_bounds)
    have int: "integerify g xy r = Inr (Integerify (nat r) X)"
      using integerify_ok[of r xy g] r lxy n gx by simp
    have js: "sint (Integerify (nat r) X AND (word_of_int (N - 1) :: uint64)) = int j"
      unfolding j_def w_def using N by (rule mix_index_sint)
    have nj: "nat (int j * (128 * r)) = n * j"
      using r n by (simp add: nat_mult_distrib mult.commute)
    let ?s = "\<lparr>ptr = ptr v + n * j, len = len v - n * j, cap = cap v - n * j\<rparr>"
    have sv: "slice_from v (int j * (128 * r)) = Inr ?s"
      using r blk lv by (subst slice_from_ok) (auto simp: nj intro: mult_nonneg_nonneg)
    have vj: "bytes_at g (ptr v + n * j) n = V ! j"
    proof -
      have "bytes_at g (ptr v + n * j) n = bytes_at g0 (ptr v + n * j) n"
      proof (rule bytes_at_cong)
        fix a assume "ptr v + n * j \<le> a" "a < ptr v + n * j + n"
        then have "a < brk g0 \<and> \<not> (ptr xy \<le> a \<and> a < ptr xy + 2 * n)"
          using blk below disj by linarith
        then show "mem g a = mem g0 a" using g by blast
      qed
      then show ?thesis using V jN by simp
    qed
    have lVj: "length (V ! j) = n" using vj[symmetric] by simp
    let ?g1 = "store_at g (ptr xy) (xor_bytes X (V ! j))"
    have c1: "n \<le> cap v - n * j" using lv blk by linarith
    have c2: "ptr xy + n \<le> ptr v + n * j \<or> ptr v + n * j + n \<le> ptr xy"
      using disj blk by linarith
    have xr: "blockXOR g xy ?s (128 * r) = Inr ?g1"
      using blockXOR_ok[of "128 * r" ?s xy g] r lxy c1 c2
      by (simp add: n128 gx vj)
    have pre: "blockMix_pre ?g1 xy ?y r"
      unfolding blockMix_pre_def using r lxy below g n by auto
    from F pre obtain g2 where g2: "F ?g1 xy ?y r = Inr g2" "blockMix_post ?g1 xy ?y (nat r) g2"
      unfolding blockMix_ok_def by blast
    have xy1: "bytes_at ?g1 (ptr xy) n = xor_bytes X (V ! j)"
      by (rule bytes_at_store_at_same) (simp add: lX lVj)
    from g2(2) have res: "bytes_at g2 (ptr xy) n = BlockMix (nat r) (xor_bytes X (V ! j))"
      and brk2: "brk ?g1 \<le> brk g2"
      and fr2: "\<And>a. a < brk g \<Longrightarrow> \<not> (ptr xy \<le> a \<and> a < ptr xy + 2 * n) \<Longrightarrow> mem g2 a = mem ?g1 a"
      unfolding blockMix_post_def n[symmetric] xy1 by auto
    have next_state: "sm_mix (nat r) (nat N) V X0 (nat (k + 1)) =
        BlockMix (nat r) (xor_bytes X (V ! j))"
      using k by (simp add: nat_add_distrib sm_mix_Suc X_def j_def w_def)
    have "?I (k + 1) g2"
      unfolding next_state
    proof (intro conjI allI impI)
      show "brk g0 \<le> brk g2" using g brk2 by simp
    next
      fix a
      assume a: "a < brk g0 \<and> \<not> (ptr xy \<le> a \<and> a < ptr xy + 2 * n)"
      then have "mem g2 a = mem ?g1 a" using fr2 g by simp
      also have "\<dots> = mem g a" using a by (auto simp: mem_store_at lX lVj)
      also have "\<dots> = mem g0 a" using g a by blast
      finally show "mem g2 a = mem g0 a" .
    next
      show "bytes_at g2 (ptr xy) n = BlockMix (nat r) (xor_bytes X (V ! j))" by (rule res)
    qed
    then show "\<exists>t'. and_then (integerify g xy r) (\<lambda>k.
                  let j = sint (k AND (word_of_int (N - 1) :: uint64)) in
                  and_then (slice_from v (j * (128 * r))) (\<lambda>s.
                  and_then (blockXOR g xy s (128 * r)) (\<lambda>h. F h xy ?y r))) = Inr t' \<and>
               ?I (k + 1) t'"
      unfolding int and_then_Inr Let_def js sv xr g2(1) by blast
  qed (use N in simp)
qed

definition smix_ok ::
  "(heap \<Rightarrow> slice \<Rightarrow> int \<Rightarrow> int \<Rightarrow> slice \<Rightarrow> slice \<Rightarrow> heap go) \<Rightarrow> bool" where
  "smix_ok G \<longleftrightarrow>
     (\<forall>h b r N v xy. smix_pre h b r N v xy \<longrightarrow>
        (\<exists>h'. G h b r N v xy = Inr h' \<and> smix_post h b (nat r) (nat N) v xy h'))"

lemma smix_with_correct:
  assumes F: "blockMix_ok F"
  shows "smix_ok (smix_with F)"
  unfolding smix_ok_def
proof (intro allI impI)
  fix h b r N v xy
  assume pre: "smix_pre h b r N v xy"
  define n where "n = 128 * nat r"
  have n2: "256 * nat r = 2 * n" "128 * nat r * nat N = n * nat N" by (simp_all add: n_def)
  from pre have r: "1 \<le> r" and N: "1 \<le> N" "N \<le> 2 ^ 63"
    and lb: "n \<le> len b" "len b \<le> cap b"
    and lv: "n * nat N \<le> len v" "len v \<le> cap v"
    and lxy: "2 * n \<le> len xy" "len xy \<le> cap xy"
    and below: "ptr b + n \<le> brk h" "ptr v + n * nat N \<le> brk h" "ptr xy + 2 * n \<le> brk h"
    and dbv: "ptr b + n \<le> ptr v \<or> ptr v + n * nat N \<le> ptr b"
    and dbx: "ptr b + n \<le> ptr xy \<or> ptr xy + 2 * n \<le> ptr b"
    and dvx: "ptr v + n * nat N \<le> ptr xy \<or> ptr xy + 2 * n \<le> ptr v"
    unfolding smix_pre_def n2 n_def[symmetric] by blast+
  have n128: "nat (128 * r) = n" using r by (simp add: n_def nat_mult_distrib)
  let ?y = "\<lparr>ptr = ptr xy + n, len = len xy - n, cap = cap xy - n\<rparr>"
  define B where "B = bytes_at h (ptr b) n"
  have lB: "length B = n" by (simp add: B_def)
  let ?h1 = "store_at h (ptr xy) B"
  have sy: "slice_from xy (128 * r) = Inr ?y"
    using r lxy by (subst slice_from_ok) (auto simp: n128)
  have c0: "blockCopy h xy b (128 * r) = Inr ?h1"
    using blockCopy_ok[of "128 * r" b xy h] r lb lxy by (simp add: n128 B_def)
  \<comment> \<open>fill phase\<close>
  have "\<exists>g'. for_loop 0 N
           (\<lambda>i h. and_then (slice_from v (i * (128 * r))) (\<lambda>d.
                  and_then (blockCopy h d xy (128 * r)) (\<lambda>h. F h xy ?y r)))
           ?h1 = Inr g' \<and> brk ?h1 \<le> brk g' \<and>
      (\<forall>a. a < brk ?h1 \<and> \<not> (ptr v \<le> a \<and> a < ptr v + n * nat N) \<and>
           \<not> (ptr xy \<le> a \<and> a < ptr xy + 2 * n) \<longrightarrow> mem g' a = mem ?h1 a) \<and>
      bytes_at g' (ptr xy) n = fst (sm_fill (nat r) (nat N) B (nat N)) \<and>
      (\<forall>j < nat N. bytes_at g' (ptr v + n * j) n = snd (sm_fill (nat r) (nat N) B (nat N)) ! j)"
    using F r N(1) n_def lv(1) lxy below(2,3) dvx
    by (intro smix_fill_loop) (simp_all add: lB)
  then obtain gf where gf: "for_loop 0 N
           (\<lambda>i h. and_then (slice_from v (i * (128 * r))) (\<lambda>d.
                  and_then (blockCopy h d xy (128 * r)) (\<lambda>h. F h xy ?y r)))
           ?h1 = Inr gf" "brk h \<le> brk gf"
      "\<forall>a. a < brk h \<and> \<not> (ptr v \<le> a \<and> a < ptr v + n * nat N) \<and>
           \<not> (ptr xy \<le> a \<and> a < ptr xy + 2 * n) \<longrightarrow> mem gf a = mem ?h1 a"
      "bytes_at gf (ptr xy) n = fst (sm_fill (nat r) (nat N) B (nat N))"
      "\<forall>j < nat N. bytes_at gf (ptr v + n * j) n = snd (sm_fill (nat r) (nat N) B (nat N)) ! j"
    by auto
  \<comment> \<open>mix phase\<close>
  have "\<exists>g'. for_loop 0 N
           (\<lambda>i h. and_then (integerify h xy r) (\<lambda>k.
                  let j = sint (k AND (word_of_int (N - 1) :: uint64)) in
                  and_then (slice_from v (j * (128 * r))) (\<lambda>s.
                  and_then (blockXOR h xy s (128 * r)) (\<lambda>h. F h xy ?y r))))
           gf = Inr g' \<and> brk gf \<le> brk g' \<and>
      (\<forall>a. a < brk gf \<and> \<not> (ptr xy \<le> a \<and> a < ptr xy + 2 * n) \<longrightarrow> mem g' a = mem gf a) \<and>
      bytes_at g' (ptr xy) n =
        sm_mix (nat r) (nat N) (snd (sm_fill (nat r) (nat N) B (nat N)))
          (fst (sm_fill (nat r) (nat N) B (nat N))) (nat N)"
  proof (rule smix_mix_loop[OF F r N n_def lv lxy _ _ dvx gf(5) gf(4)])
    show "ptr v + n * nat N \<le> brk gf" "ptr xy + 2 * n \<le> brk gf"
      using below gf(2) by linarith+
  qed
  then obtain gm where gm: "for_loop 0 N
           (\<lambda>i h. and_then (integerify h xy r) (\<lambda>k.
                  let j = sint (k AND (word_of_int (N - 1) :: uint64)) in
                  and_then (slice_from v (j * (128 * r))) (\<lambda>s.
                  and_then (blockXOR h xy s (128 * r)) (\<lambda>h. F h xy ?y r))))
           gf = Inr gm" "brk gf \<le> brk gm"
      "\<forall>a. a < brk gf \<and> \<not> (ptr xy \<le> a \<and> a < ptr xy + 2 * n) \<longrightarrow> mem gm a = mem gf a"
      "bytes_at gm (ptr xy) n = SMix (nat r) (nat N) B"
    by (auto simp: SMix_alt Let_def split: prod.split)
  let ?h' = "store_at gm (ptr b) (SMix (nat r) (nat N) B)"
  have lS: "length (SMix (nat r) (nat N) B) = n" using gm(4)[symmetric] by simp
  have c1: "blockCopy gm b xy (128 * r) = Inr ?h'"
    using blockCopy_ok[of "128 * r" xy b gm] r lb lxy by (simp add: n128 gm(4))
  have "smix_post h b (nat r) (nat N) v xy ?h'"
    unfolding smix_post_def n2 n_def[symmetric]
  proof (intro conjI allI impI)
    show "bytes_at ?h' (ptr b) n = SMix (nat r) (nat N) (bytes_at h (ptr b) n)"
      unfolding B_def[symmetric] by (rule bytes_at_store_at_same) (rule lS[symmetric])
    show "brk h \<le> brk ?h'" using gf(2) gm(2) by simp
  next
    fix a
    assume a: "a < brk h \<and> \<not> (ptr b \<le> a \<and> a < ptr b + n) \<and>
          \<not> (ptr v \<le> a \<and> a < ptr v + n * nat N) \<and> \<not> (ptr xy \<le> a \<and> a < ptr xy + 2 * n)"
    have "mem ?h' a = mem gm a" using a by (auto simp: mem_store_at lS)
    also have "\<dots> = mem gf a" using gm(3) a gf(2) by simp
    also have "\<dots> = mem ?h1 a" using gf(3) a by blast
    also have "\<dots> = mem h a" using a by (auto simp: mem_store_at lB)
    finally show "mem ?h' a = mem h a" .
  qed
  then show "\<exists>h'. smix_with F h b r N v xy = Inr h' \<and> smix_post h b (nat r) (nat N) v xy h'"
    unfolding smix_with_def Let_def sy and_then_Inr c0 gf(1) gm(1)[unfolded Let_def] c1 by blast
qed

lemma smix_ok_smix: "smix_ok smix"
  unfolding smix_def blockMix_def
  by (intro smix_with_correct blockMix_with_correct salsa_ok_salsa)

lemma smix_ok_smix_rot: "smix_ok smix_rot"
  unfolding smix_rot_def blockMix_rot_def
  by (intro smix_with_correct blockMix_with_correct salsa_ok_salsa_rot)

lemma smix_ok_smix_arr: "smix_ok smix_arr"
  unfolding smix_arr_def by (intro smix_with_correct blockMix_arr_correct)

section \<open>The claims\<close>

text \<open>
  C3. For every 64-byte buffer \<open>b\<close>, \<open>salsa\<close> replaces \<open>b\<close> with Salsa20/8 of its
  contents: sixteen little-endian words, four double rounds (column step, then row step,
  each of four quarter rounds on the standard index schedule), the input words added back
  modulo \<open>2^32\<close>, and the result written back in little-endian order. This holds for
  \<open>salsa\<close> of scrypt.go and for both variants of part_000; nothing outside the buffer
  changes.
\<close>

theorem salsa_replaces_with_Salsa20_8:
  assumes "len b = 64"
  shows "(\<exists>h'. salsa h b = Inr h' \<and> bytes h' b = Salsa20_8 (bytes h b) \<and>
            (\<forall>a. a < ptr b \<or> ptr b + 64 \<le> a \<longrightarrow> mem h' a = mem h a)) \<and>
         (\<exists>h'. salsa_rot h b = Inr h' \<and> bytes h' b = Salsa20_8 (bytes h b) \<and>
            (\<forall>a. a < ptr b \<or> ptr b + 64 \<le> a \<longrightarrow> mem h' a = mem h a)) \<and>
         (bytes (salsa_arr h (ptr b)) b = Salsa20_8 (bytes h b) \<and>
            (\<forall>a. a < ptr b \<or> ptr b + 64 \<le> a \<longrightarrow> mem (salsa_arr h (ptr b)) a = mem h a))"
proof -
  have b: "bytes h b = bytes_at h (ptr b) 64"
    by (simp add: bytes_def assms)
  have r: "bytes (store_at h (ptr b) (Salsa20_8 (bytes h b))) b = Salsa20_8 (bytes h b)"
    by (simp add: bytes_def assms)
  have f: "\<forall>a. a < ptr b \<or> ptr b + 64 \<le> a \<longrightarrow>
      mem (store_at h (ptr b) (Salsa20_8 (bytes h b))) a = mem h a"
    by (auto simp: mem_store_at)
  show ?thesis
    using r f by (simp add: salsa_correct salsa_rot_correct salsa_arr_correct assms b[symmetric])
qed

theorem salsa_replaces_with_Salsa20_8_witness:
  "len \<lparr>ptr = 0, len = 64, cap = 64\<rparr> = 64 \<and>
   (\<exists>h'. salsa empty_heap \<lparr>ptr = 0, len = 64, cap = 64\<rparr> = Inr h' \<and>
      bytes h' \<lparr>ptr = 0, len = 64, cap = 64\<rparr> =
        Salsa20_8 (bytes empty_heap \<lparr>ptr = 0, len = 64, cap = 64\<rparr>))"
  using salsa_replaces_with_Salsa20_8[of "\<lparr>ptr = 0, len = 64, cap = 64\<rparr>" empty_heap]
  by auto

text \<open>
  C2. For every \<open>r \<ge> 1\<close>, every buffer \<open>b\<close> of length \<open>128\<cdot>r\<close> and scratch \<open>y\<close> of the
  same length, \<open>blockMix\<close> replaces \<open>b\<close> with BlockMix of its contents: \<open>X\<close> starts as
  the last 64-byte sub-block; for \<open>i = 0 \<dots> 2r-1\<close> the \<open>i\<close>-th sub-block is XORed into
  \<open>X\<close>, Salsa20/8 is applied and \<open>X\<close> is stored as \<open>Y[i]\<close>; the result is the
  even-indexed sub-blocks of \<open>Y\<close> followed by the odd-indexed ones. The buffers are
  allocated slices (below the allocation pointer, length within capacity) that do not
  overlap. This holds for \<open>blockMix\<close> of scrypt.go and of both files of part_000.
\<close>

theorem blockMix_replaces_with_BlockMix:
  assumes "1 \<le> r" and "len b = nat (128 * r)" and "len y = nat (128 * r)"
    and "len b \<le> cap b" and "len y \<le> cap y"
    and "ptr b + len b \<le> brk h" and "ptr y + len y \<le> brk h"
    and "ptr b + len b \<le> ptr y \<or> ptr y + len y \<le> ptr b"
  shows "(\<exists>h'. blockMix h b y r = Inr h' \<and> bytes h' b = BlockMix (nat r) (bytes h b)) \<and>
         (\<exists>h'. blockMix_arr h b y r = Inr h' \<and> bytes h' b = BlockMix (nat r) (bytes h b)) \<and>
         (\<exists>h'. blockMix_rot h b y r = Inr h' \<and> bytes h' b = BlockMix (nat r) (bytes h b))"
proof -
  have n: "nat (128 * r) = 128 * nat r" using assms(1) by (simp add: nat_mult_distrib)
  have pre: "blockMix_pre h b y r"
    using assms unfolding blockMix_pre_def n by simp
  have "\<exists>h'. F h b y r = Inr h' \<and> bytes h' b = BlockMix (nat r) (bytes h b)"
    if "blockMix_ok F" for F
  proof -
    have l: "len b = 128 * nat r" using assms(2) n by simp
    from that pre obtain h' where "F h b y r = Inr h'" "blockMix_post h b y (nat r) h'"
      unfolding blockMix_ok_def by blast
    then show ?thesis unfolding blockMix_post_def bytes_def l by blast
  qed
  then show ?thesis
    unfolding blockMix_def blockMix_rot_def
    using blockMix_with_correct[OF salsa_ok_salsa] blockMix_with_correct[OF salsa_ok_salsa_rot]
      blockMix_arr_correct by blast
qed

theorem blockMix_replaces_with_BlockMix_witness:
  "(1::int) \<le> 1 \<and>
   len \<lparr>ptr = 0, len = 128, cap = 128\<rparr> = nat (128 * 1) \<and>
   len \<lparr>ptr = 128, len = 128, cap = 128\<rparr> = nat (128 * 1) \<and>
   brk (empty_heap\<lparr>brk := 256\<rparr>) = 256 \<and>
   (\<exists>h'. blockMix (empty_heap\<lparr>brk := 256\<rparr>) \<lparr>ptr = 0, len = 128, cap = 128\<rparr>
           \<lparr>ptr = 128, len = 128, cap = 128\<rparr> 1 = Inr h' \<and>
         bytes h' \<lparr>ptr = 0, len = 128, cap = 128\<rparr> =
         BlockMix (nat 1) (bytes (empty_heap\<lparr>brk := 256\<rparr>) \<lparr>ptr = 0, len = 128, cap = 128\<rparr>))"
  using blockMix_replaces_with_BlockMix[of 1 "\<lparr>ptr = 0, len = 128, cap = 128\<rparr>"
      "\<lparr>ptr = 128, len = 128, cap = 128\<rparr>" "empty_heap\<lparr>brk := 256\<rparr>"]
  by simp

end
